theory Spec2Isabelle
  imports Complex_Main "HOL-Library.Word"
begin

section \<open>Data model of the photo GPS extractor (app.js)\<close>

text \<open>
  A \<open>DataView\<close> over the file's \<open>ArrayBuffer\<close> is the list of its bytes; its
  \<open>byteLength\<close> is the length of the list. Offsets and the unsigned integers read from
  the buffer are JavaScript numbers that are non-negative integers far below \<open>2^53\<close>, so
  they are natural numbers here. A JavaScript string is the list of its UTF-16 code
  units.
\<close>

type_synonym byte = "8 word"
type_synonym dataView = "byte list"
type_synonym jsstring = "nat list"

text \<open>
  What a call can throw. \<open>extractGpsFromFile\<close> throws three \<open>Error\<close>s of its own, told
  apart by their message: the bytes are neither JPEG nor HEIC-hinted
  (\<open>UnsupportedFormat\<close>), the HEIC scan found no Exif stream (\<open>NoLocationInHeic\<close>), the
  JPEG walk found no Exif stream (\<open>MetadataNotFound\<close>). \<open>RangeError\<close> is what the
  \<open>DataView\<close> getters throw on a read that does not fit in the buffer, and what the
  engine throws on a call with more arguments than it takes. A \<open>null\<close> return value is
  \<open>None\<close>.
\<close>

datatype failure = UnsupportedFormat | NoLocationInHeic | MetadataNotFound | RangeError

type_synonym 'a result = "failure + 'a"

fun andThen :: "'a result \<Rightarrow> ('a \<Rightarrow> 'b result) \<Rightarrow> 'b result" where
  "andThen (Inl e) f = Inl e"
| "andThen (Inr v) f = f v"

lemma andThen_cong [fundef_cong]:
  "r = r' \<Longrightarrow> (\<And>v. r' = Inr v \<Longrightarrow> f v = f' v) \<Longrightarrow> andThen r f = andThen r' f'"
  by (cases r') auto

record exifInfo =
  tiffOffset :: nat
  littleEndian :: bool

record ifdEntry =
  etype :: nat
  ecount :: nat
  dataOffset :: nat
  valueOrOffset :: nat
  valueSize :: nat

record rational =
  numerator :: nat
  denominator :: nat

subsection \<open>DataView getters\<close>

text \<open>
  The unsigned integers at an offset that fits, in the byte order asked for
  (\<open>littleEndian\<close> true or false).
\<close>

definition uint8At :: "dataView \<Rightarrow> nat \<Rightarrow> nat" where
  "uint8At dv offset = unat (dv ! offset)"

definition uint16At :: "dataView \<Rightarrow> nat \<Rightarrow> bool \<Rightarrow> nat" where
  "uint16At dv offset le =
     (if le then uint8At dv offset + 256 * uint8At dv (offset + 1)
      else 256 * uint8At dv offset + uint8At dv (offset + 1))"

definition uint32At :: "dataView \<Rightarrow> nat \<Rightarrow> bool \<Rightarrow> nat" where
  "uint32At dv offset le =
     (if le
      then uint8At dv offset + 256 * uint8At dv (offset + 1)
           + 65536 * uint8At dv (offset + 2) + 16777216 * uint8At dv (offset + 3)
      else 16777216 * uint8At dv offset + 65536 * uint8At dv (offset + 1)
           + 256 * uint8At dv (offset + 2) + uint8At dv (offset + 3))"

text \<open>The getters throw a \<open>RangeError\<close> when the bytes asked for pass the end.\<close>

definition getUint8 :: "dataView \<Rightarrow> nat \<Rightarrow> nat result" where
  "getUint8 dv offset =
     (if offset + 1 > length dv then Inl RangeError else Inr (uint8At dv offset))"

definition getUint16 :: "dataView \<Rightarrow> nat \<Rightarrow> bool \<Rightarrow> nat result" where
  "getUint16 dv offset le =
     (if offset + 2 > length dv then Inl RangeError else Inr (uint16At dv offset le))"

definition getUint32 :: "dataView \<Rightarrow> nat \<Rightarrow> bool \<Rightarrow> nat result" where
  "getUint32 dv offset le =
     (if offset + 4 > length dv then Inl RangeError else Inr (uint32At dv offset le))"

subsection \<open>getAscii\<close>

function getAscii_loop :: "dataView \<Rightarrow> nat \<Rightarrow> nat \<Rightarrow> nat \<Rightarrow> jsstring \<Rightarrow> jsstring result" where
  "getAscii_loop dv offset len index acc =
     (if index < len
      then andThen (getUint8 dv (offset + index))
             (\<lambda>c. getAscii_loop dv offset len (index + 1) (acc @ [c]))
      else Inr acc)"
  by pat_completeness auto
termination
  by (relation "measure (\<lambda>(dv, offset, len, index, acc). len - index)") auto

declare getAscii_loop.simps [simp del]

definition getAscii :: "dataView \<Rightarrow> nat \<Rightarrow> nat \<Rightarrow> jsstring result" where
  "getAscii dv offset len =
     (if offset + len > length dv then Inr [] else getAscii_loop dv offset len 0 [])"

text \<open>The string literals of the source, as code units.\<close>

definition str_Exif :: jsstring where "str_Exif = [0x45, 0x78, 0x69, 0x66]"
definition str_II :: jsstring where "str_II = [0x49, 0x49]"
definition str_MM :: jsstring where "str_MM = [0x4D, 0x4D]"

subsection \<open>isJpeg and the JPEG segment walk (locateExifSegment)\<close>

definition isJpeg :: "dataView \<Rightarrow> bool result" where
  "isJpeg dv =
     (if length dv < 4 then Inr False
      else andThen (getUint16 dv 0 False) (\<lambda>soi. Inr (soi = 0xffd8)))"

text \<open>
  The \<open>&&\<close> chain of the signature test, left to right with short circuit: the two
  \<open>getUint8\<close> calls are made only when \<open>signature === "Exif"\<close>.
\<close>

definition exifHeaderTest :: "dataView \<Rightarrow> nat \<Rightarrow> jsstring \<Rightarrow> bool result" where
  "exifHeaderTest dv headerStart signature =
     (if signature = str_Exif
      then andThen (getUint8 dv (headerStart + 4))
             (\<lambda>z1. if z1 = 0
                   then andThen (getUint8 dv (headerStart + 5)) (\<lambda>z2. Inr (z2 = 0))
                   else Inr False)
      else Inr False)"

function locateExifSegment_loop :: "dataView \<Rightarrow> nat \<Rightarrow> exifInfo option result" where
  "locateExifSegment_loop dv offset =
     (if offset + 4 < length dv then
        andThen (getUint8 dv offset) (\<lambda>b.
          if b \<noteq> 0xff then Inr None
          else andThen (getUint8 dv (offset + 1)) (\<lambda>marker.
            if marker = 0xda then Inr None
            else andThen (getUint16 dv (offset + 2) False) (\<lambda>len.
              if marker = 0xe1 \<and> len \<ge> 8 then
                (let headerStart = offset + 4 in
                 andThen (getAscii dv headerStart 4) (\<lambda>signature.
                   andThen (exifHeaderTest dv headerStart signature) (\<lambda>isExif.
                     if isExif then
                       (let tiffOffset = headerStart + 6 in
                        andThen (getAscii dv tiffOffset 2) (\<lambda>byteOrder.
                          if byteOrder \<noteq> str_II \<and> byteOrder \<noteq> str_MM then Inr None
                          else Inr (Some \<lparr>tiffOffset = tiffOffset,
                                           littleEndian = (byteOrder = str_II)\<rparr>)))
                     else locateExifSegment_loop dv (offset + 2 + 2 + len))))
              else locateExifSegment_loop dv (offset + 2 + 2 + len))))
      else Inr None)"
  by pat_completeness auto
termination
  by (relation "measure (\<lambda>(dv, offset). length dv - offset)") auto

declare locateExifSegment_loop.simps [simp del]

definition locateExifSegment :: "dataView \<Rightarrow> exifInfo option result" where
  "locateExifSegment dv = locateExifSegment_loop dv 2"

subsection \<open>The HEIC signature scan (locateExifSegmentInHeic)\<close>

definition heicSignature :: "nat list" where
  "heicSignature = [0x45, 0x78, 0x69, 0x66, 0x00, 0x00]"

text \<open>The inner loop: \<open>matched\<close> stays true until a byte differs from the signature.\<close>

function heicMatch_loop :: "dataView \<Rightarrow> nat \<Rightarrow> nat \<Rightarrow> bool result" where
  "heicMatch_loop dv offset index =
     (if index < length heicSignature
      then andThen (getUint8 dv (offset + index))
             (\<lambda>b. if b \<noteq> heicSignature ! index then Inr False
                  else heicMatch_loop dv offset (index + 1))
      else Inr True)"
  by pat_completeness auto
termination
  by (relation "measure (\<lambda>(dv, offset, index). length heicSignature - index)") auto

declare heicMatch_loop.simps [simp del]

text \<open>
  \<open>max = byteLength - signature.length - 2\<close> is negative for a buffer of fewer than 8
  bytes, so it is an integer.
\<close>

function locateExifSegmentInHeic_loop :: "dataView \<Rightarrow> int \<Rightarrow> nat \<Rightarrow> exifInfo option result" where
  "locateExifSegmentInHeic_loop dv max' offset =
     (if int offset \<le> max' then
        andThen (heicMatch_loop dv offset 0) (\<lambda>matched.
          if \<not> matched then locateExifSegmentInHeic_loop dv max' (offset + 1)
          else
            (let tiffOffset = offset + length heicSignature in
             if tiffOffset + 8 > length dv
             then locateExifSegmentInHeic_loop dv max' (offset + 1)
             else andThen (getAscii dv tiffOffset 2) (\<lambda>byteOrder.
               if byteOrder \<noteq> str_II \<and> byteOrder \<noteq> str_MM
               then locateExifSegmentInHeic_loop dv max' (offset + 1)
               else Inr (Some \<lparr>tiffOffset = tiffOffset,
                                littleEndian = (byteOrder = str_II)\<rparr>))))
      else Inr None)"
  by pat_completeness auto
termination
  by (relation "measure (\<lambda>(dv, max', offset). nat (max' + 1 - int offset))") auto

declare locateExifSegmentInHeic_loop.simps [simp del]

definition locateExifSegmentInHeic :: "dataView \<Rightarrow> exifInfo option result" where
  "locateExifSegmentInHeic dv =
     locateExifSegmentInHeic_loop dv (int (length dv) - int (length heicSignature) - 2) 0"

subsection \<open>The TIFF directory reader (getTypeSize, readIfdEntries)\<close>

definition getTypeSize :: "nat \<Rightarrow> nat" where
  "getTypeSize t =
     (if t = 1 \<or> t = 2 \<or> t = 7 then 1
      else if t = 3 then 2
      else if t = 4 \<or> t = 9 then 4
      else if t = 5 \<or> t = 10 then 8
      else 0)"

text \<open>The \<open>Map\<close> from tag to entry: \<open>entries.set\<close> overwrites an earlier entry of the tag.\<close>

type_synonym directory = "nat \<rightharpoonup> ifdEntry"

function readIfdEntries_loop ::
  "dataView \<Rightarrow> bool \<Rightarrow> nat \<Rightarrow> nat \<Rightarrow> nat \<Rightarrow> nat \<Rightarrow> directory \<Rightarrow> directory result" where
  "readIfdEntries_loop dv le baseOffset entryCount index cursor entries =
     (if index < entryCount then
        (if cursor + 12 > length dv then Inr entries
         else
           andThen (getUint16 dv cursor le) (\<lambda>tag.
           andThen (getUint16 dv (cursor + 2) le) (\<lambda>type.
           andThen (getUint32 dv (cursor + 4) le) (\<lambda>count.
           andThen (getUint32 dv (cursor + 8) le) (\<lambda>valueOrOffset.
             (let unitSize = getTypeSize type in
              if unitSize = 0
              then readIfdEntries_loop dv le baseOffset entryCount (index + 1) (cursor + 12) entries
              else
                (let valueSize = unitSize * count in
                 if valueSize > 4 then
                   (let dataOffset = baseOffset + valueOrOffset in
                    if dataOffset + valueSize > length dv
                    then readIfdEntries_loop dv le baseOffset entryCount (index + 1) (cursor + 12)
                           entries
                    else readIfdEntries_loop dv le baseOffset entryCount (index + 1) (cursor + 12)
                           (entries(tag \<mapsto> \<lparr>etype = type, ecount = count,
                              dataOffset = dataOffset, valueOrOffset = valueOrOffset,
                              valueSize = valueSize\<rparr>)))
                 else readIfdEntries_loop dv le baseOffset entryCount (index + 1) (cursor + 12)
                        (entries(tag \<mapsto> \<lparr>etype = type, ecount = count,
                           dataOffset = cursor + 8, valueOrOffset = valueOrOffset,
                           valueSize = valueSize\<rparr>)))))))))
      else Inr entries)"
  by pat_completeness auto
termination
  by (relation "measure (\<lambda>(dv, le, baseOffset, entryCount, index, cursor, entries).
        entryCount - index)") auto

declare readIfdEntries_loop.simps [simp del]

definition readIfdEntries :: "dataView \<Rightarrow> nat \<Rightarrow> bool \<Rightarrow> nat \<Rightarrow> directory result" where
  "readIfdEntries dv offset le baseOffset =
     (if offset \<le> 0 \<or> offset + 2 > length dv then Inr Map.empty
      else andThen (getUint16 dv offset le) (\<lambda>entryCount.
             readIfdEntries_loop dv le baseOffset entryCount 0 (offset + 2) Map.empty))"

subsection \<open>Reading a GPS reference and a GPS value (readAsciiValue, readRationalValues)\<close>

function readAsciiValue_loop :: "dataView \<Rightarrow> nat \<Rightarrow> nat \<Rightarrow> nat list \<Rightarrow> nat list result" where
  "readAsciiValue_loop dv end' pointer bytes =
     (if pointer < end' then
        (if pointer \<ge> length dv then Inr bytes
         else andThen (getUint8 dv pointer) (\<lambda>v.
                if v = 0 then Inr bytes
                else readAsciiValue_loop dv end' (pointer + 1) (bytes @ [v])))
      else Inr bytes)"
  by pat_completeness auto
termination
  by (relation "measure (\<lambda>(dv, end', pointer, bytes). end' - pointer)") auto

declare readAsciiValue_loop.simps [simp del]

text \<open>
  \<open>String.fromCharCode(...bytes)\<close>: one code unit per byte, of the byte's value. The
  spread passes every element of \<open>bytes\<close> as an argument of the one call. An engine
  takes only so many arguments in a call (it puts them on its stack) and throws a
  \<open>RangeError\<close> beyond that; ECMAScript leaves the number open. It is the parameter
  \<open>maxArguments\<close> of the model, handed down from \<open>extractGpsFromFile\<close> to this call.
\<close>

definition fromCharCode :: "nat \<Rightarrow> nat list \<Rightarrow> jsstring result" where
  "fromCharCode maxArguments bytes =
     (if length bytes > maxArguments then Inl RangeError else Inr bytes)"

definition readAsciiValue :: "nat \<Rightarrow> dataView \<Rightarrow> ifdEntry \<Rightarrow> jsstring result" where
  "readAsciiValue maxArguments dv entry =
     andThen (readAsciiValue_loop dv (dataOffset entry + ecount entry) (dataOffset entry) [])
       (\<lambda>bytes. fromCharCode maxArguments bytes)"

function readRationalValues_loop ::
  "dataView \<Rightarrow> ifdEntry \<Rightarrow> bool \<Rightarrow> nat \<Rightarrow> rational list \<Rightarrow> rational list option result" where
  "readRationalValues_loop dv entry le index rationals =
     (if index < ecount entry then
        (let numeratorOffset = dataOffset entry + index * 8;
             denominatorOffset = numeratorOffset + 4 in
         if denominatorOffset + 4 > length dv then Inr None
         else
           andThen (getUint32 dv numeratorOffset le) (\<lambda>n.
           andThen (getUint32 dv denominatorOffset le) (\<lambda>d.
             if d = 0 then Inr None
             else readRationalValues_loop dv entry le (index + 1)
                    (rationals @ [\<lparr>numerator = n, denominator = d\<rparr>]))))
      else Inr (Some rationals))"
  by pat_completeness auto
termination
  by (relation "measure (\<lambda>(dv, entry, le, index, rationals). ecount entry - index)") auto

declare readRationalValues_loop.simps [simp del]

definition readRationalValues :: "dataView \<Rightarrow> ifdEntry \<Rightarrow> bool \<Rightarrow> rational list option result" where
  "readRationalValues dv entry le = readRationalValues_loop dv entry le 0 []"

subsection \<open>JavaScript numbers and strings, as far as the extractor uses them\<close>

text \<open>
  A number is \<open>NaN\<close>, an infinity or a finite value: an IEEE 754 binary64 value, given
  as the real number it stands for. The binary64 values are the multiples of
  \<open>2^(e - 52)\<close> of magnitude below \<open>2^(e + 1)\<close>, for the exponents \<open>e\<close> from \<open>-1022\<close> to
  \<open>1023\<close>. An arithmetic operation on finite values computes the exact result and
  rounds it to the nearest binary64 value, a tie to the one with the even significand
  (\<open>roundToDouble\<close>); a rounded result of magnitude \<open>2^1024\<close> or more is an infinity
  (\<open>binary64\<close>). The sign of zero is not modelled.
\<close>

datatype jsnumber = NaN | PosInfinity | NegInfinity | Finite real

definition roundTiesToEven :: "real \<Rightarrow> int" where
  "roundTiesToEven x =
     (if x - of_int \<lfloor>x\<rfloor> < 1 / 2 then \<lfloor>x\<rfloor>
      else if 1 / 2 < x - of_int \<lfloor>x\<rfloor> then \<lfloor>x\<rfloor> + 1
      else if even \<lfloor>x\<rfloor> then \<lfloor>x\<rfloor> else \<lfloor>x\<rfloor> + 1)"

text \<open>
  The exponent of the binade of a value (the subnormal values share the exponent
  \<open>-1022\<close>), and the distance of two neighbouring binary64 values there.
\<close>

definition binaryExponent :: "real \<Rightarrow> int" where
  "binaryExponent x = max \<lfloor>log 2 \<bar>x\<bar>\<rfloor> (- 1022)"

definition ulp :: "real \<Rightarrow> real" where
  "ulp x = 2 powr (of_int (binaryExponent x) - 52)"

definition roundToDouble :: "real \<Rightarrow> real" where
  "roundToDouble x = (if x = 0 then 0 else of_int (roundTiesToEven (x / ulp x)) * ulp x)"

definition binary64 :: "real \<Rightarrow> jsnumber" where
  "binary64 x =
     (if 2 ^ 1024 \<le> roundToDouble x then PosInfinity
      else if roundToDouble x \<le> - (2 ^ 1024) then NegInfinity
      else Finite (roundToDouble x))"

fun js_add :: "jsnumber \<Rightarrow> jsnumber \<Rightarrow> jsnumber" where
  "js_add (Finite a) (Finite b) = binary64 (a + b)"
| "js_add NaN y = NaN"
| "js_add x NaN = NaN"
| "js_add PosInfinity NegInfinity = NaN"
| "js_add NegInfinity PosInfinity = NaN"
| "js_add PosInfinity y = PosInfinity"
| "js_add NegInfinity y = NegInfinity"
| "js_add x PosInfinity = PosInfinity"
| "js_add x NegInfinity = NegInfinity"

fun js_mul :: "jsnumber \<Rightarrow> jsnumber \<Rightarrow> jsnumber" where
  "js_mul (Finite a) (Finite b) = binary64 (a * b)"
| "js_mul NaN y = NaN"
| "js_mul x NaN = NaN"
| "js_mul PosInfinity (Finite b) =
     (if b = 0 then NaN else if b > 0 then PosInfinity else NegInfinity)"
| "js_mul NegInfinity (Finite b) =
     (if b = 0 then NaN else if b > 0 then NegInfinity else PosInfinity)"
| "js_mul (Finite a) PosInfinity =
     (if a = 0 then NaN else if a > 0 then PosInfinity else NegInfinity)"
| "js_mul (Finite a) NegInfinity =
     (if a = 0 then NaN else if a > 0 then NegInfinity else PosInfinity)"
| "js_mul PosInfinity PosInfinity = PosInfinity"
| "js_mul NegInfinity NegInfinity = PosInfinity"
| "js_mul PosInfinity NegInfinity = NegInfinity"
| "js_mul NegInfinity PosInfinity = NegInfinity"

text \<open>Division; a finite divisor that is zero is the positive zero of an unsigned value.\<close>

fun js_div :: "jsnumber \<Rightarrow> jsnumber \<Rightarrow> jsnumber" where
  "js_div (Finite a) (Finite b) =
     (if b = 0 then (if a = 0 then NaN else if a > 0 then PosInfinity else NegInfinity)
      else binary64 (a / b))"
| "js_div NaN y = NaN"
| "js_div x NaN = NaN"
| "js_div PosInfinity (Finite b) = (if b \<ge> 0 then PosInfinity else NegInfinity)"
| "js_div NegInfinity (Finite b) = (if b \<ge> 0 then NegInfinity else PosInfinity)"
| "js_div (Finite a) PosInfinity = Finite 0"
| "js_div (Finite a) NegInfinity = Finite 0"
| "js_div PosInfinity PosInfinity = NaN"
| "js_div PosInfinity NegInfinity = NaN"
| "js_div NegInfinity PosInfinity = NaN"
| "js_div NegInfinity NegInfinity = NaN"

fun isFinite :: "jsnumber \<Rightarrow> bool" where
  "isFinite (Finite a) = True"
| "isFinite x = False"

text \<open>
  An unsigned 32-bit integer read from the buffer, as a number: the integers of
  magnitude up to \<open>2^53\<close> are binary64 values.
\<close>

definition num :: "nat \<Rightarrow> jsnumber" where
  "num n = Finite (real n)"

text \<open>
  \<open>String.prototype.trim\<close> removes the white space and line terminator code units of
  ECMAScript from both ends.
\<close>

definition isWhiteSpace :: "nat \<Rightarrow> bool" where
  "isWhiteSpace u =
     (u = 0x09 \<or> u = 0x0A \<or> u = 0x0B \<or> u = 0x0C \<or> u = 0x0D \<or> u = 0x20 \<or> u = 0xA0
      \<or> u = 0x1680 \<or> (0x2000 \<le> u \<and> u \<le> 0x200A) \<or> u = 0x2028 \<or> u = 0x2029
      \<or> u = 0x202F \<or> u = 0x205F \<or> u = 0x3000 \<or> u = 0xFEFF)"

definition trim :: "jsstring \<Rightarrow> jsstring" where
  "trim s = rev (dropWhile isWhiteSpace (rev (dropWhile isWhiteSpace s)))"

text \<open>
  \<open>toUpperCase\<close> and \<open>toLowerCase\<close>, exact on the code units below 256 (all that
  \<open>readAsciiValue\<close> produces) and on the two other code units whose image holds an
  ASCII letter the extractor compares with: U+017F (upper case \<open>S\<close>) and U+0130 (lower
  case \<open>i\<close> followed by U+0307). Every other code unit is left as it is; JavaScript
  maps some of them to other code units outside ASCII, which changes no comparison the
  extractor makes.
\<close>

definition toUpperCaseUnit :: "nat \<Rightarrow> nat list" where
  "toUpperCaseUnit u =
     (if 0x61 \<le> u \<and> u \<le> 0x7A then [u - 32]
      else if u = 0xB5 then [0x39C]
      else if u = 0xDF then [0x53, 0x53]
      else if 0xE0 \<le> u \<and> u \<le> 0xFE \<and> u \<noteq> 0xF7 then [u - 32]
      else if u = 0xFF then [0x178]
      else if u = 0x17F then [0x53]
      else [u])"

definition toUpperCase :: "jsstring \<Rightarrow> jsstring" where
  "toUpperCase s = concat (map toUpperCaseUnit s)"

definition toLowerCaseUnit :: "nat \<Rightarrow> nat list" where
  "toLowerCaseUnit u =
     (if 0x41 \<le> u \<and> u \<le> 0x5A then [u + 32]
      else if 0xC0 \<le> u \<and> u \<le> 0xDE \<and> u \<noteq> 0xD7 then [u + 32]
      else if u = 0x130 then [0x69, 0x307]
      else [u])"

definition toLowerCase :: "jsstring \<Rightarrow> jsstring" where
  "toLowerCase s = concat (map toLowerCaseUnit s)"

text \<open>\<open>s.includes(sub)\<close>, and the test of a regular expression \<open>/sub$/\<close> on \<open>s\<close>.\<close>

fun str_includes :: "jsstring \<Rightarrow> jsstring \<Rightarrow> bool" where
  "str_includes [] sub = (sub = [])"
| "str_includes (x # xs) sub = (take (length sub) (x # xs) = sub \<or> str_includes xs sub)"

definition endsWith :: "jsstring \<Rightarrow> jsstring \<Rightarrow> bool" where
  "endsWith s sub = (length sub \<le> length s \<and> drop (length s - length sub) s = sub)"

definition str_S :: jsstring where "str_S = [0x53]"
definition str_W :: jsstring where "str_W = [0x57]"
definition str_heic :: jsstring where "str_heic = [0x68, 0x65, 0x69, 0x63]"
definition str_heif :: jsstring where "str_heif = [0x68, 0x65, 0x69, 0x66]"
definition str_dot_heic :: jsstring where "str_dot_heic = [0x2E, 0x68, 0x65, 0x69, 0x63]"
definition str_dot_heif :: jsstring where "str_dot_heif = [0x2E, 0x68, 0x65, 0x69, 0x66]"

definition isHeicFileType :: "jsstring \<Rightarrow> jsstring \<Rightarrow> bool" where
  "isHeicFileType type name =
     (str_includes type str_heic \<or> str_includes type str_heif
      \<or> endsWith name str_dot_heic \<or> endsWith name str_dot_heif)"

subsection \<open>The GPS decoder (convertToDecimalDegrees, parseGpsFromTiff)\<close>

definition convertToDecimalDegrees :: "rational list \<Rightarrow> jsstring \<Rightarrow> jsnumber" where
  "convertToDecimalDegrees values ref =
     (if length values < 3 then NaN
      else
        (let degrees = js_div (num (numerator (values ! 0))) (num (denominator (values ! 0)));
             minutes = js_div (num (numerator (values ! 1))) (num (denominator (values ! 1)));
             seconds = js_div (num (numerator (values ! 2))) (num (denominator (values ! 2)));
             result = js_add (js_add degrees (js_div minutes (Finite 60)))
                        (js_div seconds (Finite 3600));
             refLetter = toUpperCase (trim ref)
         in if refLetter = str_S \<or> refLetter = str_W then js_mul result (Finite (- 1))
            else result))"

record coordinates =
  lat :: jsnumber
  lng :: jsnumber

definition parseGpsFromTiff ::
  "nat \<Rightarrow> dataView \<Rightarrow> exifInfo \<Rightarrow> coordinates option result" where
  "parseGpsFromTiff maxArguments dv info =
     (if tiffOffset info + 8 > length dv then Inr None
      else
        andThen (getUint32 dv (tiffOffset info + 4) (littleEndian info)) (\<lambda>firstIfdOffset.
        (let ifdStart = tiffOffset info + firstIfdOffset in
         andThen (readIfdEntries dv ifdStart (littleEndian info) (tiffOffset info)) (\<lambda>firstIfd.
           case firstIfd 0x8825 of
             None \<Rightarrow> Inr None
           | Some gpsInfo \<Rightarrow>
               (let gpsOffset = valueOrOffset gpsInfo;
                    gpsIfdStart = tiffOffset info + gpsOffset in
                andThen (readIfdEntries dv gpsIfdStart (littleEndian info) (tiffOffset info))
                  (\<lambda>gpsIfd.
                    case (gpsIfd 0x0001, gpsIfd 0x0002, gpsIfd 0x0003, gpsIfd 0x0004) of
                      (Some latRefEntry, Some latEntry, Some lonRefEntry, Some lonEntry) \<Rightarrow>
                        andThen (readAsciiValue maxArguments dv latRefEntry) (\<lambda>latRef.
                        andThen (readAsciiValue maxArguments dv lonRefEntry) (\<lambda>lonRef.
                        andThen (readRationalValues dv latEntry (littleEndian info)) (\<lambda>latValues.
                        andThen (readRationalValues dv lonEntry (littleEndian info)) (\<lambda>lonValues.
                          case (latValues, lonValues) of
                            (Some latVs, Some lonVs) \<Rightarrow>
                              (let latitude = convertToDecimalDegrees latVs latRef;
                                   longitude = convertToDecimalDegrees lonVs lonRef
                               in if \<not> isFinite latitude \<or> \<not> isFinite longitude then Inr None
                                  else Inr (Some \<lparr>lat = latitude, lng = longitude\<rparr>))
                          | _ \<Rightarrow> Inr None))))
                    | _ \<Rightarrow> Inr None))))))"

subsection \<open>The orchestrator (extractGpsFromFile)\<close>

text \<open>
  The \<open>File\<close> the caller passes: its bytes (what \<open>arrayBuffer()\<close> resolves to), its
  MIME type and its name. The first parameter is the engine's limit on the arguments
  of a call (see \<open>fromCharCode\<close>).
\<close>

record jsfile =
  arrayBuffer :: dataView
  ftype :: jsstring
  fname :: jsstring

definition extractGpsFromFile :: "nat \<Rightarrow> jsfile \<Rightarrow> coordinates option result" where
  "extractGpsFromFile maxArguments file =
     (let dataView = arrayBuffer file;
          type = toLowerCase (ftype file);
          name = toLowerCase (fname file);
          isHeic = isHeicFileType type name
      in andThen (isJpeg dataView) (\<lambda>jpeg.
           if \<not> jpeg \<and> \<not> isHeic then Inl UnsupportedFormat
           else if isHeic then
             andThen (locateExifSegmentInHeic dataView) (\<lambda>exifInfo.
               case exifInfo of
                 None \<Rightarrow> Inl NoLocationInHeic
               | Some info \<Rightarrow> parseGpsFromTiff maxArguments dataView info)
           else
             andThen (locateExifSegment dataView) (\<lambda>exifInfo.
               case exifInfo of
                 None \<Rightarrow> Inl MetadataNotFound
               | Some info \<Rightarrow> parseGpsFromTiff maxArguments dataView info)))"

section \<open>Notions the properties are stated with\<close>

text \<open>The values of the \<open>n\<close> bytes from an offset on, cut at the end of the buffer.\<close>

definition bytesAt :: "dataView \<Rightarrow> nat \<Rightarrow> nat \<Rightarrow> nat list" where
  "bytesAt dv offset n = map unat (take n (drop offset dv))"

text \<open>
  The six bytes \<open>Exif\0\0\<close> stand at an offset; a byte-order marker \<open>II\<close> or \<open>MM\<close>
  stands at an offset; the HEIC scan accepts an offset (signature, room for the 8-byte
  TIFF header after it, and a byte-order marker).
\<close>

definition exifSignatureAt :: "dataView \<Rightarrow> nat \<Rightarrow> bool" where
  "exifSignatureAt dv offset = (bytesAt dv offset 6 = heicSignature)"

definition validByteOrderAt :: "dataView \<Rightarrow> nat \<Rightarrow> bool" where
  "validByteOrderAt dv offset = (bytesAt dv offset 2 = str_II \<or> bytesAt dv offset 2 = str_MM)"

definition heicAccepts :: "dataView \<Rightarrow> nat \<Rightarrow> bool" where
  "heicAccepts dv offset =
     (exifSignatureAt dv offset \<and> offset + 14 \<le> length dv \<and> validByteOrderAt dv (offset + 6))"

text \<open>
  The \<open>i\<close>-th rational of a value entry, and what \<open>readRationalValues\<close> asks of it: its
  8 bytes fit in the buffer and its denominator is not zero.
\<close>

definition rationalAt :: "dataView \<Rightarrow> ifdEntry \<Rightarrow> bool \<Rightarrow> nat \<Rightarrow> rational" where
  "rationalAt dv entry le i =
     \<lparr>numerator = uint32At dv (dataOffset entry + i * 8) le,
      denominator = uint32At dv (dataOffset entry + i * 8 + 4) le\<rparr>"

definition rationalReadable :: "dataView \<Rightarrow> ifdEntry \<Rightarrow> bool \<Rightarrow> nat \<Rightarrow> bool" where
  "rationalReadable dv entry le i =
     (dataOffset entry + i * 8 + 8 \<le> length dv
      \<and> uint32At dv (dataOffset entry + i * 8 + 4) le \<noteq> 0)"

text \<open>
  The bytes of a reference entry that \<open>readAsciiValue\<close> collects: those of the entry's
  range that lie in the buffer, up to the first zero byte. A GPS directory has a
  reference too long for a call when it holds the four GPS entries and the latitude or
  the longitude reference collects more bytes than the engine takes arguments.
\<close>

definition referenceBytes :: "dataView \<Rightarrow> ifdEntry \<Rightarrow> nat list" where
  "referenceBytes dv entry =
     takeWhile (\<lambda>v. v \<noteq> 0) (bytesAt dv (dataOffset entry) (ecount entry))"

definition referenceTooLong :: "nat \<Rightarrow> dataView \<Rightarrow> directory \<Rightarrow> bool" where
  "referenceTooLong maxArguments dv gpsIfd =
     (case (gpsIfd 0x0001, gpsIfd 0x0002, gpsIfd 0x0003, gpsIfd 0x0004) of
        (Some latRefEntry, Some latEntry, Some lonRefEntry, Some lonEntry) \<Rightarrow>
          maxArguments < length (referenceBytes dv latRefEntry)
          \<or> maxArguments < length (referenceBytes dv lonRefEntry)
      | _ \<Rightarrow> False)"



text \<open>
  A sample TIFF stream (little-endian): a first directory with the GPS pointer, and a
  GPS directory with the references \<open>N\<close> and \<open>E\<close>, the latitude 35, 40, 45 and the
  longitude 139, 41, 30, all over 1 but for the denominator of the latitude's seconds,
  whose low byte is the parameter.
\<close>

definition gpsSample :: "byte \<Rightarrow> dataView" where
  "gpsSample d =
     [0x49, 0x49, 0x2A, 0x00, 0x08, 0x00, 0x00, 0x00,
      0x01, 0x00,
      0x25, 0x88, 0x04, 0x00, 0x01, 0x00, 0x00, 0x00, 0x1A, 0x00, 0x00, 0x00,
      0x00, 0x00, 0x00, 0x00,
      0x04, 0x00,
      0x01, 0x00, 0x02, 0x00, 0x02, 0x00, 0x00, 0x00, 0x4E, 0x00, 0x00, 0x00,
      0x02, 0x00, 0x05, 0x00, 0x03, 0x00, 0x00, 0x00, 0x50, 0x00, 0x00, 0x00,
      0x03, 0x00, 0x02, 0x00, 0x02, 0x00, 0x00, 0x00, 0x45, 0x00, 0x00, 0x00,
      0x04, 0x00, 0x05, 0x00, 0x03, 0x00, 0x00, 0x00, 0x68, 0x00, 0x00, 0x00,
      0x00, 0x00, 0x00, 0x00,
      0x23, 0x00, 0x00, 0x00, 0x01, 0x00, 0x00, 0x00,
      0x28, 0x00, 0x00, 0x00, 0x01, 0x00, 0x00, 0x00,
      0x2D, 0x00, 0x00, 0x00, d, 0x00, 0x00, 0x00,
      0x8B, 0x00, 0x00, 0x00, 0x01, 0x00, 0x00, 0x00,
      0x29, 0x00, 0x00, 0x00, 0x01, 0x00, 0x00, 0x00,
      0x1E, 0x00, 0x00, 0x00, 0x01, 0x00, 0x00, 0x00]"

text \<open>
  The same stream with a latitude reference of 70000 bytes \<open>N\<close>, stored after the
  longitude.
\<close>

definition longReferenceSample :: "byte \<Rightarrow> dataView" where
  "longReferenceSample d =
     [0x49, 0x49, 0x2A, 0x00, 0x08, 0x00, 0x00, 0x00,
      0x01, 0x00,
      0x25, 0x88, 0x04, 0x00, 0x01, 0x00, 0x00, 0x00, 0x1A, 0x00, 0x00, 0x00,
      0x00, 0x00, 0x00, 0x00,
      0x04, 0x00,
      0x01, 0x00, 0x02, 0x00, 0x70, 0x11, 0x01, 0x00, 0x80, 0x00, 0x00, 0x00,
      0x02, 0x00, 0x05, 0x00, 0x03, 0x00, 0x00, 0x00, 0x50, 0x00, 0x00, 0x00,
      0x03, 0x00, 0x02, 0x00, 0x02, 0x00, 0x00, 0x00, 0x45, 0x00, 0x00, 0x00,
      0x04, 0x00, 0x05, 0x00, 0x03, 0x00, 0x00, 0x00, 0x68, 0x00, 0x00, 0x00,
      0x00, 0x00, 0x00, 0x00,
      0x23, 0x00, 0x00, 0x00, 0x01, 0x00, 0x00, 0x00,
      0x28, 0x00, 0x00, 0x00, 0x01, 0x00, 0x00, 0x00,
      0x2D, 0x00, 0x00, 0x00, d, 0x00, 0x00, 0x00,
      0x8B, 0x00, 0x00, 0x00, 0x01, 0x00, 0x00, 0x00,
      0x29, 0x00, 0x00, 0x00, 0x01, 0x00, 0x00, 0x00,
      0x1E, 0x00, 0x00, 0x00, 0x01, 0x00, 0x00, 0x00]
     @ replicate 70000 0x4E"

text \<open>The bytes of a file that holds this stream after the signature \<open>Exif\0\0\<close>.\<close>

definition heicLongReferenceSample :: dataView where
  "heicLongReferenceSample = [0x45, 0x78, 0x69, 0x66, 0x00, 0x00] @ longReferenceSample 1"

text \<open>
  What one pass of the directory loop decodes from the 12-byte record at \<open>cursor\<close>: the
  tag and the entry it stores, or nothing when the type is unknown or the value does not
  fit in the buffer; and the directory after the pass.
\<close>

definition ifdRecordAt :: "dataView \<Rightarrow> bool \<Rightarrow> nat \<Rightarrow> nat \<Rightarrow> (nat \<times> ifdEntry) option" where
  "ifdRecordAt dv le baseOffset cursor =
     (let tag = uint16At dv cursor le;
          type = uint16At dv (cursor + 2) le;
          count = uint32At dv (cursor + 4) le;
          valueOrOffset = uint32At dv (cursor + 8) le;
          unitSize = getTypeSize type;
          valueSize = unitSize * count
      in if unitSize = 0 then None
         else if valueSize > 4 then
           (if baseOffset + valueOrOffset + valueSize > length dv then None
            else Some (tag, \<lparr>etype = type, ecount = count,
                   dataOffset = baseOffset + valueOrOffset, valueOrOffset = valueOrOffset,
                   valueSize = valueSize\<rparr>))
         else Some (tag, \<lparr>etype = type, ecount = count, dataOffset = cursor + 8,
                valueOrOffset = valueOrOffset, valueSize = valueSize\<rparr>))"

definition addRecord :: "directory \<Rightarrow> (nat \<times> ifdEntry) option \<Rightarrow> directory" where
  "addRecord entries r = (case r of None \<Rightarrow> entries | Some (tag, e) \<Rightarrow> entries(tag \<mapsto> e))"

text \<open>
  A sample stream whose first directory announces 3 records; the buffer ends 5 bytes
  into the second.
\<close>

definition truncatedIfdSample :: dataView where
  "truncatedIfdSample =
     [0x49, 0x49, 0x2A, 0x00, 0x08, 0x00, 0x00, 0x00,
      0x03, 0x00,
      0x25, 0x88, 0x04, 0x00, 0x01, 0x00, 0x00, 0x00, 0x1A, 0x00, 0x00, 0x00,
      0x01, 0x00, 0x02, 0x00, 0x02]"

text \<open>
  The offsets at which the JPEG walk inspects a marker: it starts at offset 2, and from
  an inspected offset it goes on, by the stride of the loop, when four more bytes
  follow, the byte there is \<open>0xFF\<close>, the marker is not \<open>0xDA\<close>, and the segment is not an
  APP1 segment of length at least 8 that passes the signature test.
\<close>

inductive walkInspects :: "dataView \<Rightarrow> nat \<Rightarrow> bool" for dv :: dataView where
  start: "walkInspects dv 2"
| advance: "walkInspects dv offset \<Longrightarrow> offset + 4 < length dv \<Longrightarrow>
     uint8At dv offset = 0xff \<Longrightarrow> uint8At dv (offset + 1) \<noteq> 0xda \<Longrightarrow>
     \<not> (uint8At dv (offset + 1) = 0xe1 \<and> 8 \<le> uint16At dv (offset + 2) False)
       \<or> andThen (getAscii dv (offset + 4) 4) (exifHeaderTest dv (offset + 4)) = Inr False \<Longrightarrow>
     walkInspects dv (offset + 2 + 2 + uint16At dv (offset + 2) False)"

text \<open>
  Sample files: a JPEG with an empty APP0 segment (two filler bytes after it, so that
  the walk's stride lands on the next marker) and an APP1 segment whose Exif signature
  is followed by the bytes \<open>XY\<close>; a JPEG with an APP0 segment only. And the MIME types
  \<open>image/jpeg\<close> and \<open>image/heic\<close>.
\<close>

definition badByteOrderSample :: dataView where
  "badByteOrderSample =
     [0xFF, 0xD8, 0xFF, 0xE0, 0x00, 0x02, 0x00, 0x00,
      0xFF, 0xE1, 0x00, 0x10, 0x45, 0x78, 0x69, 0x66, 0x00, 0x00,
      0x58, 0x59, 0x00, 0x2A, 0x00, 0x00, 0x00, 0x08]"

definition noExifSample :: dataView where
  "noExifSample = [0xFF, 0xD8, 0xFF, 0xE0, 0x00, 0x04, 0x00, 0x00, 0x00, 0x00, 0xFF, 0xD9]"

definition str_image_jpeg :: jsstring where
  "str_image_jpeg = [0x69, 0x6D, 0x61, 0x67, 0x65, 0x2F, 0x6A, 0x70, 0x65, 0x67]"

definition str_image_heic :: jsstring where
  "str_image_heic = [0x69, 0x6D, 0x61, 0x67, 0x65, 0x2F, 0x68, 0x65, 0x69, 0x63]"

text \<open>
  A JPEG whose first segment is an APP1 segment holding the sample stream with the
  latitude N 35 40 45 and the longitude E 139 41 30.
\<close>

definition jpegGpsSample :: dataView where
  "jpegGpsSample =
     [0xFF, 0xD8, 0xFF, 0xE1, 0x00, 0x88, 0x45, 0x78, 0x69, 0x66, 0x00, 0x00] @ gpsSample 1"

section \<open>Bounds-checked reads\<close>

lemma getUint8_ok: "offset < length dv \<Longrightarrow> getUint8 dv offset = Inr (uint8At dv offset)"
  by (simp add: getUint8_def)

lemma getUint16_ok: "offset + 2 \<le> length dv \<Longrightarrow> getUint16 dv offset le = Inr (uint16At dv offset le)"
  by (simp add: getUint16_def)

lemma getUint32_ok: "offset + 4 \<le> length dv \<Longrightarrow> getUint32 dv offset le = Inr (uint32At dv offset le)"
  by (simp add: getUint32_def)

lemma bytesAt_step:
  "offset < length dv \<Longrightarrow> bytesAt dv offset (Suc n) = uint8At dv offset # bytesAt dv (Suc offset) n"
  by (simp add: bytesAt_def uint8At_def Cons_nth_drop_Suc [symmetric])

lemma getAscii_loop_eq:
  "offset + len \<le> length dv \<Longrightarrow> index \<le> len \<Longrightarrow>
   getAscii_loop dv offset len index acc = Inr (acc @ bytesAt dv (offset + index) (len - index))"
proof (induction dv offset len index acc rule: getAscii_loop.induct)
  case (1 dv offset len index acc)
  show ?case
  proof (cases "index < len")
    case True
    then have rd: "getUint8 dv (offset + index) = Inr (uint8At dv (offset + index))"
      using "1.prems" by (simp add: getUint8_ok)
    have st: "bytesAt dv (offset + index) (len - index)
        = uint8At dv (offset + index) # bytesAt dv (offset + (index + 1)) (len - (index + 1))"
      using True "1.prems" bytesAt_step [of "offset + index" dv "len - index - 1"]
      by (simp add: Suc_diff_Suc)
    have "getAscii_loop dv offset len index acc
        = getAscii_loop dv offset len (index + 1) (acc @ [uint8At dv (offset + index)])"
      using True rd by (subst getAscii_loop.simps) simp
    also have "\<dots> = Inr ((acc @ [uint8At dv (offset + index)])
        @ bytesAt dv (offset + (index + 1)) (len - (index + 1)))"
      using True "1.prems" rd by (intro "1.IH") auto
    finally show ?thesis using st by simp
  next
    case False
    then show ?thesis
      using "1.prems" by (subst getAscii_loop.simps) (simp add: bytesAt_def)
  qed
qed

lemma getAscii_eq:
  "getAscii dv offset len = Inr (if offset + len > length dv then [] else bytesAt dv offset len)"
  by (simp add: getAscii_def getAscii_loop_eq)


lemma length_bytesAt: "length (bytesAt dv offset n) = min n (length dv - offset)"
  by (simp add: bytesAt_def)

lemma heicMatch_loop_eq:
  "offset + 6 \<le> length dv \<Longrightarrow> index \<le> 6 \<Longrightarrow>
   heicMatch_loop dv offset index
     = Inr (bytesAt dv (offset + index) (6 - index) = drop index heicSignature)"
proof (induction dv offset index rule: heicMatch_loop.induct)
  case (1 dv offset index)
  have len6: "length heicSignature = 6" by (simp add: heicSignature_def)
  show ?case
  proof (cases "index < 6")
    case True
    then have rd: "getUint8 dv (offset + index) = Inr (uint8At dv (offset + index))"
      using "1.prems" by (simp add: getUint8_ok)
    have st: "bytesAt dv (offset + index) (6 - index)
        = uint8At dv (offset + index) # bytesAt dv (offset + (index + 1)) (6 - (index + 1))"
    proof -
      have "6 - index = Suc (5 - index)" using True by simp
      then show ?thesis
        using True "1.prems" bytesAt_step [of "offset + index" dv "5 - index"] by simp
    qed
    have sg: "drop index heicSignature = heicSignature ! index # drop (index + 1) heicSignature"
      using True len6 by (simp add: Cons_nth_drop_Suc)
    show ?thesis
    proof (cases "uint8At dv (offset + index) = heicSignature ! index")
      case same: True
      have "heicMatch_loop dv offset index = heicMatch_loop dv offset (index + 1)"
        using True rd same len6 by (subst heicMatch_loop.simps) simp
      also have "\<dots> = Inr (bytesAt dv (offset + (index + 1)) (6 - (index + 1))
                           = drop (index + 1) heicSignature)"
        using True "1.prems" rd same len6 by (intro "1.IH") auto
      finally show ?thesis using st sg same by simp
    next
      case False
      have "heicMatch_loop dv offset index = Inr False"
        using True rd False len6 by (subst heicMatch_loop.simps) simp
      then show ?thesis using st sg False by simp
    qed
  next
    case False
    then have "index = 6" using "1.prems" by simp
    then show ?thesis
      using len6 by (subst heicMatch_loop.simps) (simp add: bytesAt_def)
  qed
qed

lemma heicMatch_eq:
  "offset + 8 \<le> length dv \<Longrightarrow> heicMatch_loop dv offset 0 = Inr (exifSignatureAt dv offset)"
  using heicMatch_loop_eq [of offset dv 0] by (simp add: exifSignatureAt_def)

section \<open>The HEIC scan returns the first accepted offset\<close>

lemma heic_unfold:
  assumes "int offset \<le> int (length dv) - 8"
  shows "locateExifSegmentInHeic_loop dv (int (length dv) - 8) offset =
      (if \<not> exifSignatureAt dv offset
       then locateExifSegmentInHeic_loop dv (int (length dv) - 8) (offset + 1)
       else if offset + 6 + 8 > length dv
       then locateExifSegmentInHeic_loop dv (int (length dv) - 8) (offset + 1)
       else andThen (getAscii dv (offset + 6) 2) (\<lambda>byteOrder.
               if byteOrder \<noteq> str_II \<and> byteOrder \<noteq> str_MM
               then locateExifSegmentInHeic_loop dv (int (length dv) - 8) (offset + 1)
               else Inr (Some \<lparr>tiffOffset = offset + 6,
                                littleEndian = (byteOrder = str_II)\<rparr>)))"
proof -
  have fit: "offset + 8 \<le> length dv" using assms by linarith
  have len6: "length heicSignature = 6" by (simp add: heicSignature_def)
  have m: "heicMatch_loop dv offset 0 = Inr (exifSignatureAt dv offset)"
    using fit by (rule heicMatch_eq)
  show ?thesis
    apply (subst locateExifSegmentInHeic_loop.simps)
    apply (simp only: assms if_True m andThen.simps len6 Let_def)
    done
qed


lemma heic_step:
  assumes "int offset \<le> int (length dv) - 8"
  shows "locateExifSegmentInHeic_loop dv (int (length dv) - 8) offset =
     (if heicAccepts dv offset
      then Inr (Some \<lparr>tiffOffset = offset + 6, littleEndian = (bytesAt dv (offset + 6) 2 = str_II)\<rparr>)
      else locateExifSegmentInHeic_loop dv (int (length dv) - 8) (offset + 1))"
proof (cases "heicAccepts dv offset")
  case True
  then have s: "exifSignatureAt dv offset" and r: "\<not> offset + 6 + 8 > length dv"
    and v: "\<not> (bytesAt dv (offset + 6) 2 \<noteq> str_II \<and> bytesAt dv (offset + 6) 2 \<noteq> str_MM)"
    by (simp_all add: heicAccepts_def validByteOrderAt_def)
  have g: "getAscii dv (offset + 6) 2 = Inr (bytesAt dv (offset + 6) 2)"
    using r by (simp add: getAscii_eq)
  have "locateExifSegmentInHeic_loop dv (int (length dv) - 8) offset
      = Inr (Some \<lparr>tiffOffset = offset + 6, littleEndian = (bytesAt dv (offset + 6) 2 = str_II)\<rparr>)"
    by (subst heic_unfold [OF assms]) (simp only: s r g v simp_thms if_True if_False andThen.simps)
  then show ?thesis using True by (simp only: if_True)
next
  case False
  have "locateExifSegmentInHeic_loop dv (int (length dv) - 8) offset
      = locateExifSegmentInHeic_loop dv (int (length dv) - 8) (offset + 1)"
  proof (cases "exifSignatureAt dv offset")
    case s: True
    show ?thesis
    proof (cases "offset + 6 + 8 > length dv")
      case True
      then show ?thesis
        by (subst heic_unfold [OF assms]) (simp only: s True simp_thms if_True if_False)
    next
      case r: False
      have g: "getAscii dv (offset + 6) 2 = Inr (bytesAt dv (offset + 6) 2)"
        using r by (simp add: getAscii_eq)
      have v: "bytesAt dv (offset + 6) 2 \<noteq> str_II \<and> bytesAt dv (offset + 6) 2 \<noteq> str_MM"
        using False s r by (simp add: heicAccepts_def validByteOrderAt_def)
      show ?thesis
        by (subst heic_unfold [OF assms]) (simp only: s r g v simp_thms if_True if_False andThen.simps)
    qed
  next
    case s: False
    show ?thesis
      by (subst heic_unfold [OF assms]) (simp only: s simp_thms if_True if_False)
  qed
  then show ?thesis using False by (simp only: if_False)
qed

lemma heic_past_end:
  "\<not> int offset \<le> int (length dv) - 8 \<Longrightarrow>
   locateExifSegmentInHeic_loop dv (int (length dv) - 8) offset = Inr None"
  by (subst locateExifSegmentInHeic_loop.simps) simp

lemma heic_none:
  "(\<And>p. offset \<le> p \<Longrightarrow> \<not> heicAccepts dv p) \<Longrightarrow>
   locateExifSegmentInHeic_loop dv (int (length dv) - 8) offset = Inr None"
proof (induction "length dv - offset" arbitrary: offset rule: less_induct)
  case less
  show ?case
  proof (cases "int offset \<le> int (length dv) - 8")
    case True
    have "locateExifSegmentInHeic_loop dv (int (length dv) - 8) offset
        = locateExifSegmentInHeic_loop dv (int (length dv) - 8) (offset + 1)"
      using heic_step [OF True] less.prems [of offset] by simp
    also have "\<dots> = Inr None"
      using True less.prems by (intro less.hyps) auto
    finally show ?thesis .
  next
    case False
    then show ?thesis by (rule heic_past_end)
  qed
qed

lemma heic_first:
  "heicAccepts dv p \<Longrightarrow> offset \<le> p \<Longrightarrow> (\<And>q. offset \<le> q \<Longrightarrow> q < p \<Longrightarrow> \<not> heicAccepts dv q) \<Longrightarrow>
   locateExifSegmentInHeic_loop dv (int (length dv) - 8) offset
     = Inr (Some \<lparr>tiffOffset = p + 6, littleEndian = (bytesAt dv (p + 6) 2 = str_II)\<rparr>)"
proof (induction "p - offset" arbitrary: offset rule: less_induct)
  case less
  have inr: "int offset \<le> int (length dv) - 8"
    using less.prems(1,2) by (simp add: heicAccepts_def)
  show ?case
  proof (cases "offset = p")
    case True
    then show ?thesis using heic_step [OF inr] less.prems(1) by simp
  next
    case False
    then have lt: "offset < p" using less.prems(2) by simp
    then have "\<not> heicAccepts dv offset" using less.prems(3) by simp
    then have "locateExifSegmentInHeic_loop dv (int (length dv) - 8) offset
        = locateExifSegmentInHeic_loop dv (int (length dv) - 8) (offset + 1)"
      using heic_step [OF inr] by simp
    also have "\<dots> = Inr (Some \<lparr>tiffOffset = p + 6, littleEndian = (bytesAt dv (p + 6) 2 = str_II)\<rparr>)"
      using lt less.prems by (intro less.hyps) auto
    finally show ?thesis .
  qed
qed

lemma locateExifSegmentInHeic_unfold:
  "locateExifSegmentInHeic dv = locateExifSegmentInHeic_loop dv (int (length dv) - 8) 0"
  by (simp add: locateExifSegmentInHeic_def heicSignature_def)

lemma heic_result:
  "locateExifSegmentInHeic dv =
     (if \<exists>p. heicAccepts dv p
      then Inr (Some \<lparr>tiffOffset = (LEAST p. heicAccepts dv p) + 6,
                       littleEndian = (bytesAt dv ((LEAST p. heicAccepts dv p) + 6) 2 = str_II)\<rparr>)
      else Inr None)"
proof (cases "\<exists>p. heicAccepts dv p")
  case True
  define p where "p = (LEAST p. heicAccepts dv p)"
  have a: "heicAccepts dv p"
    unfolding p_def using True by (rule LeastI_ex)
  have b: "\<not> heicAccepts dv q" if "q < p" for q
    using that unfolding p_def by (rule not_less_Least)
  have "locateExifSegmentInHeic_loop dv (int (length dv) - 8) 0
      = Inr (Some \<lparr>tiffOffset = p + 6, littleEndian = (bytesAt dv (p + 6) 2 = str_II)\<rparr>)"
    using a by (rule heic_first) (simp_all add: b)
  then show ?thesis
    unfolding locateExifSegmentInHeic_unfold p_def using True by (simp only: if_True)
next
  case False
  then have "locateExifSegmentInHeic_loop dv (int (length dv) - 8) 0 = Inr None"
    by (intro heic_none) blast
  then show ?thesis
    unfolding locateExifSegmentInHeic_unfold using False by (simp only: if_False)
qed

section \<open>The orchestrator's routes and the HEIC scan, continued\<close>

lemma isJpeg_eq:
  "isJpeg dv = Inr (4 \<le> length dv \<and> uint16At dv 0 False = 0xffd8)"
  by (simp add: isJpeg_def getUint16_def)

lemma extractGpsFromFile_routes:
  "extractGpsFromFile m f =
     (if isHeicFileType (toLowerCase (ftype f)) (toLowerCase (fname f))
      then andThen (locateExifSegmentInHeic (arrayBuffer f)) (\<lambda>exifInfo.
             case exifInfo of
               None \<Rightarrow> Inl NoLocationInHeic
             | Some info \<Rightarrow> parseGpsFromTiff m (arrayBuffer f) info)
      else if 4 \<le> length (arrayBuffer f) \<and> uint16At (arrayBuffer f) 0 False = 0xffd8
      then andThen (locateExifSegment (arrayBuffer f)) (\<lambda>exifInfo.
             case exifInfo of
               None \<Rightarrow> Inl MetadataNotFound
             | Some info \<Rightarrow> parseGpsFromTiff m (arrayBuffer f) info)
      else Inl UnsupportedFormat)"
  by (simp add: extractGpsFromFile_def isJpeg_eq Let_def)

lemma exifSignatureAt_fits: "exifSignatureAt dv p \<Longrightarrow> p + 6 \<le> length dv"
proof -
  assume "exifSignatureAt dv p"
  then have "length (bytesAt dv p 6) = 6"
    by (simp add: exifSignatureAt_def heicSignature_def)
  then show ?thesis by (simp add: length_bytesAt)
qed

lemma exifSignatureAt_first_byte:
  assumes "exifSignatureAt dv p"
  shows "0x45 \<in> set dv"
proof -
  have fit: "p < length dv" using exifSignatureAt_fits [OF assms] by simp
  have "bytesAt dv p 6 = uint8At dv p # bytesAt dv (Suc p) 5"
    using bytesAt_step [OF fit, of 5] by simp
  then have "uint8At dv p = 0x45"
    using assms by (simp add: exifSignatureAt_def heicSignature_def)
  then have "unat (dv ! p) = unat (0x45 :: byte)"
    by (simp add: uint8At_def)
  then have "dv ! p = 0x45"
    by (simp only: word_unat_eq_iff)
  then show ?thesis using fit by (metis nth_mem)
qed

lemma heic_max: "int (length dv) - int (length heicSignature) - 2 = int (length dv) - 8"
  by (simp add: heicSignature_def)

lemma heic_skip:
  assumes "\<not> heicAccepts dv p"
  shows "locateExifSegmentInHeic_loop dv (int (length dv) - 8) p
       = locateExifSegmentInHeic_loop dv (int (length dv) - 8) (p + 1)"
proof (cases "int p \<le> int (length dv) - 8")
  case True
  then show ?thesis using heic_step [OF True] assms by simp
next
  case False
  then have n: "\<not> int (p + 1) \<le> int (length dv) - 8" by simp
  show ?thesis
    unfolding heic_past_end [OF False] heic_past_end [OF n] by (rule refl)
qed

section \<open>Reading a reference string\<close>

lemma readAsciiValue_loop_eq:
  "readAsciiValue_loop dv e p bytes
     = Inr (bytes @ takeWhile (\<lambda>v. v \<noteq> 0) (bytesAt dv p (e - p)))"
proof (induction dv e p bytes rule: readAsciiValue_loop.induct)
  case (1 dv e p bytes)
  show ?case
  proof (cases "p < e")
    case inside: True
    show ?thesis
    proof (cases "p \<ge> length dv")
      case True
      then show ?thesis
        using inside by (subst readAsciiValue_loop.simps) (simp add: bytesAt_def)
    next
      case False
      then have fit: "p < length dv" by simp
      have rd: "getUint8 dv p = Inr (uint8At dv p)" using fit by (rule getUint8_ok)
      have "e - p = Suc (e - (p + 1))" using inside by simp
      then have st: "bytesAt dv p (e - p) = uint8At dv p # bytesAt dv (p + 1) (e - (p + 1))"
        using bytesAt_step [OF fit, of "e - (p + 1)"] by simp
      show ?thesis
      proof (cases "uint8At dv p = 0")
        case True
        then show ?thesis
          using inside False rd st by (subst readAsciiValue_loop.simps) simp
      next
        case nz: False
        have "readAsciiValue_loop dv e p bytes
            = readAsciiValue_loop dv e (p + 1) (bytes @ [uint8At dv p])"
          using inside False rd nz by (subst readAsciiValue_loop.simps) simp
        also have "\<dots> = Inr ((bytes @ [uint8At dv p])
            @ takeWhile (\<lambda>v. v \<noteq> 0) (bytesAt dv (p + 1) (e - (p + 1))))"
          using inside False rd nz by (intro "1.IH") auto
        finally show ?thesis using st nz by simp
      qed
    qed
  next
    case False
    then show ?thesis
      by (subst readAsciiValue_loop.simps) (simp add: bytesAt_def)
  qed
qed

lemma readAsciiValue_eq:
  "readAsciiValue m dv entry
     = (if m < length (referenceBytes dv entry) then Inl RangeError
        else Inr (referenceBytes dv entry))"
  by (simp add: readAsciiValue_def readAsciiValue_loop_eq fromCharCode_def referenceBytes_def)

lemma referenceBytes_length: "length (referenceBytes dv entry) \<le> length dv"
proof -
  have "length (referenceBytes dv entry) \<le> length (bytesAt dv (dataOffset entry) (ecount entry))"
    unfolding referenceBytes_def by (rule length_takeWhile_le)
  also have "\<dots> \<le> length dv" by (simp add: length_bytesAt)
  finally show ?thesis .
qed

lemma trim_empty: "toUpperCase (trim []) = []"
  by (simp add: toUpperCase_def trim_def)

section \<open>Rounding to binary64\<close>

text \<open>
  The integer nearest to a real, and the binary64 value nearest to a real: how far
  they are, their symmetry, and that the binary64 values are fixed points of the
  rounding.
\<close>

lemma rte_close: "\<bar>of_int (roundTiesToEven x) - x\<bar> \<le> 1 / 2"
  unfolding roundTiesToEven_def by (auto; linarith)

lemma rte_unique: "\<bar>x - of_int m\<bar> < 1 / 2 \<Longrightarrow> roundTiesToEven x = m"
proof -
  assume a: "\<bar>x - of_int m\<bar> < 1 / 2"
  have c: "\<bar>of_int (roundTiesToEven x) - x\<bar> \<le> 1 / 2" by (rule rte_close)
  have "\<bar>of_int (roundTiesToEven x) - (of_int m :: real)\<bar> < 1" using a c by linarith
  then have "\<bar>roundTiesToEven x - m\<bar> < 1"
    by (metis (no_types) of_int_1 of_int_abs of_int_diff of_int_less_iff)
  then show ?thesis by simp
qed

lemma rte_of_int [simp]: "roundTiesToEven (of_int n) = n"
  by (rule rte_unique) simp

lemma rte_minus: "roundTiesToEven (- x) = - roundTiesToEven x"
proof (cases "x = of_int \<lfloor>x\<rfloor>")
  case True
  then obtain n where "x = of_int n" ..
  then have "- x = of_int (- n)" by simp
  then show ?thesis using \<open>x = of_int n\<close> by (metis rte_of_int)
next
  case False
  then have lt: "of_int \<lfloor>x\<rfloor> < x" using of_int_floor_le [of x] by linarith
  have f: "\<lfloor>- x\<rfloor> = - \<lfloor>x\<rfloor> - 1"
  proof (rule floor_unique)
    show "of_int (- \<lfloor>x\<rfloor> - 1) \<le> - x" by simp linarith
    show "- x < of_int (- \<lfloor>x\<rfloor> - 1) + 1" using lt by simp
  qed
  show ?thesis
    unfolding roundTiesToEven_def f using False
    by (auto; linarith?)
qed

lemma rte_bound: "\<bar>x\<bar> \<le> of_int N \<Longrightarrow> \<bar>roundTiesToEven x\<bar> \<le> N"
proof -
  assume a: "\<bar>x\<bar> \<le> of_int N"
  have up: "roundTiesToEven x \<le> N"
  proof (cases "x = of_int N")
    case True
    then show ?thesis by simp
  next
    case False
    then have "x < of_int N" using a by linarith
    then have "\<lfloor>x\<rfloor> < N" by (simp add: floor_less_iff)
    moreover have "roundTiesToEven x \<le> \<lfloor>x\<rfloor> + 1"
      unfolding roundTiesToEven_def by simp
    ultimately show ?thesis by linarith
  qed
  have "of_int (- N) \<le> x" using a by simp
  then have "- N \<le> \<lfloor>x\<rfloor>" by (simp only: le_floor_iff)
  moreover have "\<lfloor>x\<rfloor> \<le> roundTiesToEven x"
    unfolding roundTiesToEven_def by simp
  ultimately show ?thesis using up by linarith
qed

lemma rte_twice: "\<bar>real_of_int (roundTiesToEven x)\<bar> \<le> 2 * \<bar>x\<bar>"
proof (cases "roundTiesToEven x = 0")
  case True
  then show ?thesis by simp
next
  case False
  then have "1 \<le> \<bar>roundTiesToEven x\<bar>" by linarith
  then have one: "1 \<le> \<bar>real_of_int (roundTiesToEven x)\<bar>" by linarith
  have "\<bar>real_of_int (roundTiesToEven x) - x\<bar> \<le> 1 / 2" by (rule rte_close)
  then show ?thesis using one by linarith
qed

text \<open>The exponent brackets the magnitude.\<close>

lemma exponent_upper:
  assumes "x \<noteq> 0"
  shows "\<bar>x\<bar> < 2 powr (of_int (binaryExponent x) + 1)"
proof -
  have pos: "0 < \<bar>x\<bar>" using assms by simp
  have "\<bar>x\<bar> < 2 powr (of_int \<lfloor>log 2 \<bar>x\<bar>\<rfloor> + 1)"
    using floor_log_eq_powr_iff [OF pos, of 2 "\<lfloor>log 2 \<bar>x\<bar>\<rfloor>"] by simp
  also have "\<dots> \<le> 2 powr (of_int (binaryExponent x) + 1)"
    unfolding binaryExponent_def by (simp add: powr_mono)
  finally show ?thesis .
qed


lemma ulp_pos: "0 < ulp x"
  by (simp add: ulp_def)

lemma rd_zero [simp]: "roundToDouble 0 = 0"
  by (simp add: roundToDouble_def)

lemma binaryExponent_minus: "binaryExponent (- x) = binaryExponent x"
  by (simp add: binaryExponent_def)

lemma ulp_minus: "ulp (- x) = ulp x"
  by (simp add: ulp_def binaryExponent_minus)

lemma rd_minus: "roundToDouble (- x) = - roundToDouble x"
  by (simp add: roundToDouble_def ulp_minus rte_minus)


lemma rd_twice: "\<bar>roundToDouble x\<bar> \<le> 2 * \<bar>x\<bar>"
proof (cases "x = 0")
  case True
  then show ?thesis by simp
next
  case False
  have u: "0 < ulp x" by (rule ulp_pos)
  have "\<bar>roundToDouble x\<bar> = \<bar>real_of_int (roundTiesToEven (x / ulp x))\<bar> * ulp x"
    using False u by (simp add: roundToDouble_def abs_mult)
  also have "\<dots> \<le> (2 * \<bar>x / ulp x\<bar>) * ulp x"
    using rte_twice [of "x / ulp x"] u by (intro mult_right_mono) simp_all
  also have "\<dots> = 2 * \<bar>x\<bar>" using u by (simp add: abs_divide)
  finally show ?thesis .
qed


text \<open>Representable values are fixed points.\<close>

lemma powr_int_nat: "0 \<le> d \<Longrightarrow> (2::real) powr (of_int d) = 2 ^ nat d"
  by (metis of_int_of_nat_eq of_nat_nat powr_realpow zero_less_numeral)

lemma rd_representable_strict:
  assumes x: "x = of_int M * 2 powr (of_int k)" and M: "\<bar>M\<bar> < 2 ^ 53" and k: "- 1074 \<le> k"
  shows "roundToDouble x = x"
proof (cases "x = 0")
  case True
  then show ?thesis by simp
next
  case False
  have pos: "0 < \<bar>x\<bar>" using False by simp
  define fl where "fl = \<lfloor>log 2 \<bar>x\<bar>\<rfloor>"
  have lo: "2 powr (of_int fl) \<le> \<bar>x\<bar>"
    using floor_log_eq_powr_iff [OF pos, of 2 fl] by (simp add: fl_def)
  have "\<bar>x\<bar> = \<bar>real_of_int M\<bar> * 2 powr (of_int k)"
    unfolding x by (simp add: abs_mult)
  also have "\<dots> < 2 ^ 53 * 2 powr (of_int k)"
  proof (rule mult_strict_right_mono)
    have "real_of_int \<bar>M\<bar> < real_of_int (2 ^ 53)" using M by (simp only: of_int_less_iff)
    then show "\<bar>real_of_int M\<bar> < 2 ^ 53" by simp
    show "0 < (2::real) powr (of_int k)" by simp
  qed
  also have "\<dots> = 2 powr (of_int (k + 53))"
    by (simp add: powr_add flip: powr_realpow)
  finally have "(2::real) powr (of_int fl) < 2 powr (of_int (k + 53))" using lo by linarith
  then have "real_of_int fl < real_of_int (k + 53)" by simp
  then have "fl < k + 53" by (simp only: of_int_less_iff)
  then have e: "binaryExponent x - 52 \<le> k"
    unfolding binaryExponent_def fl_def [symmetric] using k by simp
  define d where "d = k - (binaryExponent x - 52)"
  have d: "0 \<le> d" using e by (simp add: d_def)
  have "2 powr (of_int k) = 2 powr (of_int d) * ulp x"
    unfolding ulp_def d_def by (simp flip: powr_add)
  then have r: "x = of_int (M * 2 ^ nat d) * ulp x"
    unfolding x by (simp add: powr_int_nat [OF d])
  have u: "0 < ulp x" by (rule ulp_pos)
  have "x / ulp x = of_int (M * 2 ^ nat d)"
    using r u by (metis nonzero_eq_divide_eq less_numeral_extra(3))
  then have "roundToDouble x = of_int (M * 2 ^ nat d) * ulp x"
    using False by (simp only: roundToDouble_def if_False rte_of_int)
  then show ?thesis using r by simp
qed

lemma rd_representable:
  assumes x: "x = of_int M * 2 powr (of_int k)" and M: "\<bar>M\<bar> \<le> 2 ^ 53" and k: "- 1074 \<le> k"
  shows "roundToDouble x = x"
proof (cases "\<bar>M\<bar> = 2 ^ 53")
  case False
  then have "\<bar>M\<bar> < 2 ^ 53" using M by linarith
  then show ?thesis using x k by (intro rd_representable_strict [of x M k])
next
  case True
  then have "M = 2 ^ 53 \<or> M = - (2 ^ 53)" by linarith
  then have "M = 2 * (M div 2)" by auto
  then have h: "real_of_int M = 2 * real_of_int (M div 2)"
    by (metis of_int_mult of_int_numeral)
  have "(2::real) powr (of_int (k + 1)) = 2 * 2 powr (of_int k)"
    by (simp add: powr_add)
  then have x': "x = of_int (M div 2) * 2 powr (of_int (k + 1))"
    unfolding x using h by simp
  have "\<bar>M div 2\<bar> < 2 ^ 53" using \<open>M = 2 ^ 53 \<or> M = - (2 ^ 53)\<close> by auto
  then show ?thesis using x' k by (intro rd_representable_strict [of x "M div 2" "k + 1"]) simp_all
qed

lemma rd_is_representable:
  "\<exists>M k. roundToDouble x = of_int M * 2 powr (of_int k) \<and> \<bar>M\<bar> \<le> 2 ^ 53 \<and> - 1074 \<le> k"
proof (cases "x = 0")
  case True
  have "roundToDouble x = of_int 0 * 2 powr (of_int 0)" using True by simp
  then show ?thesis by (intro exI [of _ 0] exI [of _ 0]) simp
next
  case False
  have u: "0 < ulp x" by (rule ulp_pos)
  have "\<bar>x\<bar> < 2 powr (of_int (binaryExponent x) + 1)" using False by (rule exponent_upper)
  also have "\<dots> = 2 ^ 53 * ulp x"
    unfolding ulp_def by (simp add: powr_add powr_diff flip: powr_realpow)
  finally have "\<bar>x\<bar> / ulp x < 2 ^ 53" using u by (simp add: pos_divide_less_eq)
  then have "\<bar>x / ulp x\<bar> \<le> real_of_int (2 ^ 53)" using u by (simp add: abs_divide)
  then have b: "\<bar>roundTiesToEven (x / ulp x)\<bar> \<le> 2 ^ 53" by (rule rte_bound)
  have "roundToDouble x = of_int (roundTiesToEven (x / ulp x))
      * 2 powr (of_int (binaryExponent x - 52))"
    using False by (simp add: roundToDouble_def ulp_def)
  moreover have "- 1074 \<le> binaryExponent x - 52" by (simp add: binaryExponent_def)
  ultimately show ?thesis using b by blast
qed

lemma rd_idem [simp]: "roundToDouble (roundToDouble x) = roundToDouble x"
  using rd_is_representable [of x] rd_representable by blast

lemma rd_of_nat:
  assumes "n < 2 ^ 53"
  shows "roundToDouble (real n) = real n"
proof -
  have a: "\<bar>int n\<bar> \<le> 2 ^ 53"
    using assms by (metis abs_of_nat less_imp_le of_nat_le_iff of_nat_numeral of_nat_power)
  have "real n = of_int (int n) * 2 powr (of_int 0)" by simp
  then show ?thesis using a by (intro rd_representable [of "real n" "int n" 0]) simp_all
qed

text \<open>A certificate for the value of a rounding away from a tie.\<close>

lemma rd_certificate:
  assumes lo: "2 ^ 52 \<le> \<bar>x\<bar> * 2 ^ j" and hi: "\<bar>x\<bar> * 2 ^ j < 2 ^ 53" and j: "j \<le> 1074"
    and m: "\<bar>x * 2 ^ j - of_int m\<bar> < 1 / 2"
  shows "roundToDouble x = of_int m / 2 ^ j"
proof -
  have nz: "x \<noteq> 0" using lo by auto
  then have pos: "0 < \<bar>x\<bar>" by simp
  define k where "k = 52 - int j"
  have p: "(2::real) powr (of_int k) = 2 ^ 52 / 2 ^ j"
    unfolding k_def by (simp add: powr_diff flip: powr_realpow)
  have p1: "(2::real) powr (of_int (k + 1)) = 2 ^ 53 / 2 ^ j"
    unfolding k_def by (simp add: powr_diff powr_add flip: powr_realpow)
  have "2 powr (of_int k) \<le> \<bar>x\<bar> \<and> \<bar>x\<bar> < 2 powr (of_int (k + 1))"
    unfolding p p1 using lo hi by (simp add: divide_simps)
  then have "\<lfloor>log 2 \<bar>x\<bar>\<rfloor> = k"
    using floor_log_eq_powr_iff [OF pos, of 2 k] by simp
  then have "binaryExponent x = k"
    unfolding binaryExponent_def using j by (simp add: k_def)
  then have u: "ulp x = 1 / 2 ^ j"
    unfolding ulp_def k_def by (simp add: powr_minus divide_simps flip: powr_realpow)
  have "roundTiesToEven (x / ulp x) = m"
    using m by (intro rte_unique) (simp add: u)
  then show ?thesis using nz by (simp add: roundToDouble_def u)
qed

lemma binary64_finite:
  assumes "\<bar>x\<bar> \<le> 2 ^ 40"
  shows "binary64 x = Finite (roundToDouble x)"
proof -
  have "\<bar>roundToDouble x\<bar> \<le> 2 * \<bar>x\<bar>" by (rule rd_twice)
  then have "\<bar>roundToDouble x\<bar> \<le> 2 ^ 41" using assms by simp
  moreover have "(2::real) ^ 41 < 2 ^ 1024" by simp
  ultimately have "\<not> 2 ^ 1024 \<le> roundToDouble x" "\<not> roundToDouble x \<le> - (2 ^ 1024)"
    by linarith+
  then show ?thesis by (simp only: binary64_def if_False)
qed

section \<open>The conversion to degrees, in binary64 arithmetic\<close>

lemma quotient_le:
  assumes "n < 2 ^ 32" and "d \<noteq> 0"
  shows "\<bar>real n / real d\<bar> \<le> 2 ^ 32"
proof -
  have "1 \<le> real d" using assms(2) by simp
  then have "real n / real d \<le> real n" by (simp add: divide_le_eq mult_le_cancel_left1)
  moreover have "real n < 2 ^ 32"
    using assms(1) by (metis of_nat_less_iff of_nat_numeral of_nat_power)
  ultimately show ?thesis by simp
qed

lemma js_div_num:
  assumes "n < 2 ^ 32" and "d \<noteq> 0"
  shows "js_div (num n) (num d) = Finite (roundToDouble (real n / real d))"
    and "\<bar>roundToDouble (real n / real d)\<bar> \<le> 2 ^ 33"
proof -
  have q: "\<bar>real n / real d\<bar> \<le> 2 ^ 32" using assms by (rule quotient_le)
  then have "\<bar>real n / real d\<bar> \<le> 2 ^ 40" by simp
  then show "js_div (num n) (num d) = Finite (roundToDouble (real n / real d))"
    using assms(2) by (simp add: num_def binary64_finite)
  show "\<bar>roundToDouble (real n / real d)\<bar> \<le> 2 ^ 33"
    using rd_twice [of "real n / real d"] q by simp
qed

lemma js_div_const:
  assumes "\<bar>a\<bar> \<le> 2 ^ 33" and "1 \<le> c"
  shows "js_div (Finite a) (Finite c) = Finite (roundToDouble (a / c))"
    and "\<bar>roundToDouble (a / c)\<bar> \<le> 2 ^ 34"
proof -
  have "\<bar>a / c\<bar> = \<bar>a\<bar> / c" using assms(2) by simp
  also have "\<dots> \<le> \<bar>a\<bar>" using assms(2) by (simp add: divide_le_eq mult_le_cancel_left1)
  finally have q: "\<bar>a / c\<bar> \<le> 2 ^ 33" using assms(1) by simp
  then have "\<bar>a / c\<bar> \<le> 2 ^ 40" by simp
  then show "js_div (Finite a) (Finite c) = Finite (roundToDouble (a / c))"
    using assms(2) by (simp add: binary64_finite)
  show "\<bar>roundToDouble (a / c)\<bar> \<le> 2 ^ 34"
    using rd_twice [of "a / c"] q by simp
qed

lemma js_add_bounded:
  assumes "\<bar>a\<bar> \<le> B" and "\<bar>b\<bar> \<le> B" and "B \<le> 2 ^ 36"
  shows "js_add (Finite a) (Finite b) = Finite (roundToDouble (a + b))"
    and "\<bar>roundToDouble (a + b)\<bar> \<le> 4 * B"
proof -
  have q: "\<bar>a + b\<bar> \<le> 2 * B" using assms(1,2) by linarith
  then have "\<bar>a + b\<bar> \<le> 2 ^ 40" using assms(3) by simp
  then show "js_add (Finite a) (Finite b) = Finite (roundToDouble (a + b))"
    by (simp add: binary64_finite)
  show "\<bar>roundToDouble (a + b)\<bar> \<le> 4 * B"
    using rd_twice [of "a + b"] q by simp
qed

lemma js_negate:
  assumes "\<bar>roundToDouble x\<bar> \<le> 2 ^ 40"
  shows "js_mul (Finite (roundToDouble x)) (Finite (- 1)) = Finite (- roundToDouble x)"
proof -
  have "binary64 (- roundToDouble x) = Finite (roundToDouble (- roundToDouble x))"
    using assms by (intro binary64_finite) simp
  then show ?thesis by (simp add: rd_minus)
qed

lemma convert_value:
  assumes "3 \<le> length vs"
    and "denominator (vs ! 0) \<noteq> 0" and "denominator (vs ! 1) \<noteq> 0" and "denominator (vs ! 2) \<noteq> 0"
    and "numerator (vs ! 0) < 2 ^ 32" and "numerator (vs ! 1) < 2 ^ 32"
    and "numerator (vs ! 2) < 2 ^ 32"
  shows "convertToDecimalDegrees vs r =
     Finite ((if toUpperCase (trim r) = str_S \<or> toUpperCase (trim r) = str_W then - 1 else 1)
       * roundToDouble
           (roundToDouble
              (roundToDouble (real (numerator (vs ! 0)) / real (denominator (vs ! 0)))
               + roundToDouble
                   (roundToDouble (real (numerator (vs ! 1)) / real (denominator (vs ! 1))) / 60))
            + roundToDouble
                (roundToDouble (real (numerator (vs ! 2)) / real (denominator (vs ! 2))) / 3600)))"
proof -
  let ?D = "roundToDouble (real (numerator (vs ! 0)) / real (denominator (vs ! 0)))"
  let ?M = "roundToDouble (real (numerator (vs ! 1)) / real (denominator (vs ! 1)))"
  let ?S = "roundToDouble (real (numerator (vs ! 2)) / real (denominator (vs ! 2)))"
  note d = js_div_num [OF assms(5) assms(2)]
  note m = js_div_num [OF assms(6) assms(3)]
  note s = js_div_num [OF assms(7) assms(4)]
  note m60 = js_div_const [OF m(2), of 60]
  note s3600 = js_div_const [OF s(2), of 3600]
  have bd: "\<bar>?D\<bar> \<le> 2 ^ 34" using d(2) by simp
  have b34: "(2::real) ^ 34 \<le> 2 ^ 36" by simp
  note s1 = js_add_bounded [OF bd m60(2) b34]
  have b1: "\<bar>roundToDouble (?D + roundToDouble (?M / 60))\<bar> \<le> 2 ^ 36" using s1(2) by simp
  have b2: "\<bar>roundToDouble (?S / 3600)\<bar> \<le> 2 ^ 36" using s3600(2) by simp
  note s2 = js_add_bounded [OF b1 b2 order_refl]
  have b3: "\<bar>roundToDouble (roundToDouble (?D + roundToDouble (?M / 60))
      + roundToDouble (?S / 3600))\<bar> \<le> 2 ^ 40" using s2(2) by simp
  have n: "\<not> length vs < 3" using assms(1) by simp
  show ?thesis
    unfolding convertToDecimalDegrees_def Let_def
    by (simp only: n if_False d(1) m(1) s(1) m60(1) s3600(1) s1(1) s2(1) js_negate [OF b3])
       simp
qed















section \<open>Reading the rationals of a GPS value\<close>

lemma readRationalValues_loop_eq:
  "readRationalValues_loop dv entry le index acc =
     Inr (if \<forall>i. index \<le> i \<and> i < ecount entry \<longrightarrow> rationalReadable dv entry le i
          then Some (acc @ map (rationalAt dv entry le) [index..<ecount entry])
          else None)"
proof (induction dv entry le index acc rule: readRationalValues_loop.induct)
  case (1 dv entry le index acc)
  show ?case
  proof (cases "index < ecount entry")
    case inside: True
    show ?thesis
    proof (cases "rationalReadable dv entry le index")
      case True
      then have fit: "dataOffset entry + index * 8 + 8 \<le> length dv"
        and nz: "uint32At dv (dataOffset entry + index * 8 + 4) le \<noteq> 0"
        by (simp_all add: rationalReadable_def)
      have rn: "getUint32 dv (dataOffset entry + index * 8) le
          = Inr (uint32At dv (dataOffset entry + index * 8) le)"
        using fit by (simp add: getUint32_ok)
      have rd: "getUint32 dv (dataOffset entry + index * 8 + 4) le
          = Inr (uint32At dv (dataOffset entry + index * 8 + 4) le)"
        using fit by (simp add: getUint32_ok)
      have nfit: "\<not> length dv < dataOffset entry + index * 8 + 4 + 4" using fit by simp
      have step: "readRationalValues_loop dv entry le index acc
          = readRationalValues_loop dv entry le (index + 1)
              (acc @ [rationalAt dv entry le index])"
        apply (subst readRationalValues_loop.simps)
        apply (simp only: inside if_True Let_def nfit if_False rn rd andThen.simps nz
            rationalAt_def)
        done
      note ih = "1.IH" [OF inside refl refl nfit rn rd nz, folded rationalAt_def]
      have q: "(\<forall>i. index \<le> i \<and> i < ecount entry \<longrightarrow> rationalReadable dv entry le i)
          = (\<forall>i. index + 1 \<le> i \<and> i < ecount entry \<longrightarrow> rationalReadable dv entry le i)"
      proof
        assume "\<forall>i. index \<le> i \<and> i < ecount entry \<longrightarrow> rationalReadable dv entry le i"
        then show "\<forall>i. index + 1 \<le> i \<and> i < ecount entry \<longrightarrow> rationalReadable dv entry le i"
          by simp
      next
        assume r: "\<forall>i. index + 1 \<le> i \<and> i < ecount entry \<longrightarrow> rationalReadable dv entry le i"
        show "\<forall>i. index \<le> i \<and> i < ecount entry \<longrightarrow> rationalReadable dv entry le i"
        proof (intro allI impI)
          fix i assume i: "index \<le> i \<and> i < ecount entry"
          show "rationalReadable dv entry le i"
          proof (cases "i = index")
            case True
            then show ?thesis using \<open>rationalReadable dv entry le index\<close> by simp
          next
            case False
            then have "index + 1 \<le> i" using i by simp
            then show ?thesis using r i by blast
          qed
        qed
      qed
      have l: "[index..<ecount entry] = index # [index + 1..<ecount entry]"
        using inside by (simp add: upt_conv_Cons)
      show ?thesis
        by (simp only: step ih q l append_assoc append_Cons append_Nil list.map)
    next
      case False
      have "readRationalValues_loop dv entry le index acc = Inr None"
      proof (cases "dataOffset entry + index * 8 + 8 \<le> length dv")
        case True
        then have z: "uint32At dv (dataOffset entry + index * 8 + 4) le = 0"
          using False by (simp add: rationalReadable_def)
        have rn: "getUint32 dv (dataOffset entry + index * 8) le
            = Inr (uint32At dv (dataOffset entry + index * 8) le)"
          using True by (simp add: getUint32_ok)
        have rd: "getUint32 dv (dataOffset entry + index * 8 + 4) le = Inr 0"
          using True z by (simp add: getUint32_ok)
        have nfit: "\<not> length dv < dataOffset entry + index * 8 + 4 + 4" using True by simp
        show ?thesis
          apply (subst readRationalValues_loop.simps)
          apply (simp only: inside if_True Let_def nfit if_False rn rd andThen.simps simp_thms)
          done
      next
        case False
        then have out: "length dv < dataOffset entry + index * 8 + 4 + 4" by simp
        show ?thesis
          apply (subst readRationalValues_loop.simps)
          apply (simp only: inside if_True Let_def out)
          done
      qed
      moreover have "\<not> (\<forall>i. index \<le> i \<and> i < ecount entry \<longrightarrow> rationalReadable dv entry le i)"
        using False inside by blast
      ultimately show ?thesis by simp
    qed
  next
    case False
    then show ?thesis
      by (subst readRationalValues_loop.simps) simp
  qed
qed

lemma readRationalValues_eq:
  "readRationalValues dv entry le =
     Inr (if \<forall>i < ecount entry. rationalReadable dv entry le i
          then Some (map (rationalAt dv entry le) [0..<ecount entry])
          else None)"
  by (simp add: readRationalValues_def readRationalValues_loop_eq)

lemma readRationalValues_total:
  "\<exists>x. readRationalValues dv entry le = Inr x"
  by (simp add: readRationalValues_eq)



section \<open>The directory reader as a fold over the records that fit\<close>

lemma readIfdEntries_loop_stop:
  "\<not> index < entryCount \<or> length dv < cursor + 12 \<Longrightarrow>
   readIfdEntries_loop dv le baseOffset entryCount index cursor entries = Inr entries"
  by (subst readIfdEntries_loop.simps) auto

lemma readIfdEntries_loop_step:
  assumes "index < entryCount" and "cursor + 12 \<le> length dv"
  shows "readIfdEntries_loop dv le baseOffset entryCount index cursor entries
       = readIfdEntries_loop dv le baseOffset entryCount (index + 1) (cursor + 12)
           (addRecord entries (ifdRecordAt dv le baseOffset cursor))"
proof -
  have r: "getUint16 dv cursor le = Inr (uint16At dv cursor le)"
    "getUint16 dv (cursor + 2) le = Inr (uint16At dv (cursor + 2) le)"
    "getUint32 dv (cursor + 4) le = Inr (uint32At dv (cursor + 4) le)"
    "getUint32 dv (cursor + 8) le = Inr (uint32At dv (cursor + 8) le)"
    using assms(2) by (simp_all add: getUint16_ok getUint32_ok)
  have nfit: "\<not> length dv < cursor + 12" using assms(2) by simp
  show ?thesis
    apply (subst readIfdEntries_loop.simps)
    apply (simp only: assms(1) if_True nfit if_False r andThen.simps)
    apply (simp add: ifdRecordAt_def addRecord_def Let_def)
    done
qed

lemma readIfdEntries_loop_eq:
  "readIfdEntries_loop dv le baseOffset entryCount index cursor entries =
     Inr (foldl addRecord entries
            (map (\<lambda>k. ifdRecordAt dv le baseOffset (cursor + 12 * k))
               [0..<min (entryCount - index) ((length dv - cursor) div 12)]))"
proof (induction "entryCount - index" arbitrary: index cursor entries rule: less_induct)
  case less
  show ?case
  proof (cases "index < entryCount \<and> cursor + 12 \<le> length dv")
    case True
    define m where "m = min (entryCount - (index + 1)) ((length dv - (cursor + 12)) div 12)"
    have "12 \<le> length dv - cursor" using conjunct2 [OF True] by arith
    then have "(length dv - cursor) div 12 = Suc ((length dv - cursor - 12) div 12)"
      by (rule le_div_geq [OF zero_less_numeral])
    moreover have "length dv - cursor - 12 = length dv - (cursor + 12)" by simp
    moreover have "entryCount - index = Suc (entryCount - (index + 1))"
      using conjunct1 [OF True] by arith
    ultimately have cnt: "min (entryCount - index) ((length dv - cursor) div 12) = Suc m"
      unfolding m_def by (simp only: min_Suc_Suc)
    have lst: "[0..<Suc m] = 0 # map Suc [0..<m]"
      by (simp add: upt_conv_Cons map_Suc_upt del: upt_Suc)
    have "readIfdEntries_loop dv le baseOffset entryCount index cursor entries
        = readIfdEntries_loop dv le baseOffset entryCount (index + 1) (cursor + 12)
            (addRecord entries (ifdRecordAt dv le baseOffset cursor))"
      using True by (simp add: readIfdEntries_loop_step)
    also have "\<dots> = Inr (foldl addRecord (addRecord entries (ifdRecordAt dv le baseOffset cursor))
            (map (\<lambda>k. ifdRecordAt dv le baseOffset (cursor + 12 + 12 * k)) [0..<m]))"
      unfolding m_def using conjunct1 [OF True] by (intro less.hyps) arith
    finally show ?thesis
      unfolding cnt lst by (simp add: comp_def add.assoc)
  next
    case False
    then have stop: "\<not> index < entryCount \<or> length dv < cursor + 12" by auto
    have "min (entryCount - index) ((length dv - cursor) div 12) = 0"
      using False by (auto simp: min_def)
    then show ?thesis
      using readIfdEntries_loop_stop [OF stop] by simp
  qed
qed

lemma readIfdEntries_total: "\<exists>d. readIfdEntries dv offset le baseOffset = Inr d"
  by (simp add: readIfdEntries_def readIfdEntries_loop_eq getUint16_def)

section \<open>The JPEG walk\<close>

lemma jpeg_unfold:
  assumes "offset + 4 < length dv"
  shows "locateExifSegment_loop dv offset =
     (if uint8At dv offset \<noteq> 0xff then Inr None
      else if uint8At dv (offset + 1) = 0xda then Inr None
      else if uint8At dv (offset + 1) = 0xe1 \<and> 8 \<le> uint16At dv (offset + 2) False
      then andThen (getAscii dv (offset + 4) 4) (\<lambda>signature.
             andThen (exifHeaderTest dv (offset + 4) signature) (\<lambda>isExif.
               if isExif
               then andThen (getAscii dv (offset + 4 + 6) 2) (\<lambda>byteOrder.
                      if byteOrder \<noteq> str_II \<and> byteOrder \<noteq> str_MM then Inr None
                      else Inr (Some \<lparr>tiffOffset = offset + 4 + 6,
                                       littleEndian = (byteOrder = str_II)\<rparr>))
               else locateExifSegment_loop dv (offset + 2 + 2 + uint16At dv (offset + 2) False)))
      else locateExifSegment_loop dv (offset + 2 + 2 + uint16At dv (offset + 2) False))"
proof -
  have r: "getUint8 dv offset = Inr (uint8At dv offset)"
    "getUint8 dv (offset + 1) = Inr (uint8At dv (offset + 1))"
    "getUint16 dv (offset + 2) False = Inr (uint16At dv (offset + 2) False)"
    using assms by (simp_all add: getUint8_ok getUint16_ok)
  show ?thesis
    apply (subst locateExifSegment_loop.simps)
    apply (simp only: assms if_True r andThen.simps Let_def)
    done
qed

lemma jpeg_advance:
  assumes "offset + 4 < length dv" and "uint8At dv offset = 0xff"
    and "uint8At dv (offset + 1) \<noteq> 0xda"
    and "\<not> (uint8At dv (offset + 1) = 0xe1 \<and> 8 \<le> uint16At dv (offset + 2) False)
       \<or> andThen (getAscii dv (offset + 4) 4) (exifHeaderTest dv (offset + 4)) = Inr False"
  shows "locateExifSegment_loop dv offset
       = locateExifSegment_loop dv (offset + 2 + 2 + uint16At dv (offset + 2) False)"
proof (cases "uint8At dv (offset + 1) = 0xe1 \<and> 8 \<le> uint16At dv (offset + 2) False")
  case True
  then have t: "andThen (getAscii dv (offset + 4) 4) (exifHeaderTest dv (offset + 4)) = Inr False"
    using assms(4) by blast
  obtain sg where sg: "getAscii dv (offset + 4) 4 = Inr sg"
    by (simp add: getAscii_eq)
  have ht: "exifHeaderTest dv (offset + 4) sg = Inr False"
    using t by (simp add: sg)
  have e: "((0xe1::nat) = 0xda) = False" by simp
  show ?thesis
    by (subst jpeg_unfold [OF assms(1)])
       (simp only: assms(2) True e sg ht andThen.simps simp_thms if_True if_False)
next
  case False
  show ?thesis
    by (subst jpeg_unfold [OF assms(1)])
       (simp only: assms(2,3) False simp_thms if_True if_False)
qed

lemma walk_reaches:
  "walkInspects dv offset \<Longrightarrow> locateExifSegment dv = locateExifSegment_loop dv offset"
proof (induction rule: walkInspects.induct)
  case start
  show ?case by (simp add: locateExifSegment_def)
next
  case (advance offset)
  show ?case
    using advance.IH jpeg_advance [OF advance.hyps(2,3,4,5)] by simp
qed

lemma validByteOrderAt_fits: "validByteOrderAt dv t \<Longrightarrow> t + 2 \<le> length dv"
proof -
  assume "validByteOrderAt dv t"
  then have "length (bytesAt dv t 2) = 2"
    by (auto simp: validByteOrderAt_def str_II_def str_MM_def)
  then show ?thesis by (simp add: length_bytesAt)
qed

lemma getAscii_byte_order:
  "getAscii dv t 2 = Inr bo \<Longrightarrow> (bo = str_II \<or> bo = str_MM) = validByteOrderAt dv t"
proof (cases "t + 2 \<le> length dv")
  case True
  assume "getAscii dv t 2 = Inr bo"
  then show ?thesis using True by (simp add: getAscii_eq validByteOrderAt_def)
next
  case False
  assume "getAscii dv t 2 = Inr bo"
  then have "bo = []" using False by (simp add: getAscii_eq)
  moreover have "\<not> validByteOrderAt dv t" using False validByteOrderAt_fits by blast
  ultimately show ?thesis by (simp add: str_II_def str_MM_def)
qed

lemma exifHeaderTest_signature:
  assumes "exifSignatureAt dv hs"
  shows "andThen (getAscii dv hs 4) (exifHeaderTest dv hs) = Inr True"
proof -
  have fit: "hs + 6 \<le> length dv" using assms by (rule exifSignatureAt_fits)
  have b: "bytesAt dv hs 6 = [0x45, 0x78, 0x69, 0x66, 0x00, 0x00]"
    using assms by (simp add: exifSignatureAt_def heicSignature_def)
  have "bytesAt dv hs 4 = take 4 (bytesAt dv hs 6)"
    by (simp add: bytesAt_def take_map)
  then have s4: "bytesAt dv hs 4 = str_Exif" by (simp add: b str_Exif_def)
  have n: "\<And>k. k < 6 \<Longrightarrow> bytesAt dv hs 6 ! k = uint8At dv (hs + k)"
    using fit by (simp add: bytesAt_def uint8At_def)
  have z4: "uint8At dv (hs + 4) = 0" using n [of 4] by (simp add: b)
  have z5: "uint8At dv (hs + 5) = 0" using n [of 5] by (simp add: b)
  show ?thesis
    using fit by (simp add: getAscii_eq s4 exifHeaderTest_def getUint8_ok z4 z5)
qed

lemma jpeg_at_exif_header:
  assumes "uint8At dv offset = 0xff" and "uint8At dv (offset + 1) = 0xe1"
    and "8 \<le> uint16At dv (offset + 2) False" and "exifSignatureAt dv (offset + 4)"
  shows "locateExifSegment_loop dv offset =
     Inr (if validByteOrderAt dv (offset + 10)
          then Some \<lparr>tiffOffset = offset + 10,
                     littleEndian = (bytesAt dv (offset + 10) 2 = str_II)\<rparr>
          else None)"
proof -
  have fit: "offset + 4 < length dv"
    using exifSignatureAt_fits [OF assms(4)] by simp
  obtain sg where sg: "getAscii dv (offset + 4) 4 = Inr sg"
    by (simp add: getAscii_eq)
  have ht: "exifHeaderTest dv (offset + 4) sg = Inr True"
    using exifHeaderTest_signature [OF assms(4)] by (simp add: sg)
  obtain bo where bo: "getAscii dv (offset + 4 + 6) 2 = Inr bo"
    by (simp add: getAscii_eq)
  have v: "(bo = str_II \<or> bo = str_MM) = validByteOrderAt dv (offset + 10)"
    using getAscii_byte_order [OF bo] by (simp add: add.assoc)
  have e: "((0xe1::nat) = 0xda) = False" by simp
  have u: "locateExifSegment_loop dv offset =
      (if bo \<noteq> str_II \<and> bo \<noteq> str_MM then Inr None
       else Inr (Some \<lparr>tiffOffset = offset + 4 + 6, littleEndian = (bo = str_II)\<rparr>))"
    by (subst jpeg_unfold [OF fit])
       (simp only: assms(1,2,3) e sg ht bo andThen.simps simp_thms if_True if_False)
  show ?thesis
  proof (cases "validByteOrderAt dv (offset + 10)")
    case True
    then have "offset + 10 + 2 \<le> length dv" by (rule validByteOrderAt_fits)
    then have "bo = bytesAt dv (offset + 10) 2"
      using bo by (simp add: getAscii_eq add.assoc)
    then show ?thesis using True v by (auto simp: u)
  next
    case False
    then show ?thesis using v by (auto simp: u)
  qed
qed

lemma uint8At_bound: "uint8At dv k < 256"
proof -
  have "unat (dv ! k) < 2 ^ LENGTH(8)" by (rule unsigned_less)
  then show ?thesis by (simp add: uint8At_def)
qed

lemma uint32At_bound: "uint32At dv k le < 4294967296"
proof -
  have "uint8At dv k \<le> 255" "uint8At dv (k + 1) \<le> 255" "uint8At dv (k + 2) \<le> 255"
    "uint8At dv (k + 3) \<le> 255"
    using uint8At_bound [of dv k] uint8At_bound [of dv "k + 1"] uint8At_bound [of dv "k + 2"]
      uint8At_bound [of dv "k + 3"] by simp_all
  then show ?thesis by (cases le) (simp_all add: uint32At_def)
qed

lemma soi_bytes:
  assumes "2 \<le> length dv"
  shows "(uint16At dv 0 False = 0xffd8) = (bytesAt dv 0 2 = [0xFF, 0xD8])"
proof -
  have l: "0 < length dv" "Suc 0 < length dv" using assms by arith+
  have "bytesAt dv 0 (Suc (Suc 0)) = uint8At dv 0 # bytesAt dv (Suc 0) (Suc 0)"
    using l(1) by (rule bytesAt_step)
  also have "bytesAt dv (Suc 0) (Suc 0) = uint8At dv (Suc 0) # bytesAt dv (Suc (Suc 0)) 0"
    using l(2) by (rule bytesAt_step)
  also have "bytesAt dv (Suc (Suc 0)) 0 = []" by (simp add: bytesAt_def)
  finally have b: "bytesAt dv 0 2 = [uint8At dv 0, uint8At dv 1]"
    by (simp add: numeral_2_eq_2)
  have "(256 * uint8At dv 0 + uint8At dv 1 = 65496) = (uint8At dv 0 = 255 \<and> uint8At dv 1 = 216)"
  proof
    assume e: "256 * uint8At dv 0 + uint8At dv 1 = 65496"
    have hi: "uint8At dv 0 = 255"
    proof (rule ccontr)
      assume "uint8At dv 0 \<noteq> 255"
      then have "uint8At dv 0 \<le> 254" using uint8At_bound [of dv 0] by linarith
      then have "256 * uint8At dv 0 \<le> 256 * 254" by (rule mult_le_mono2)
      then show False using e uint8At_bound [of dv 1] by linarith
    qed
    then show "uint8At dv 0 = 255 \<and> uint8At dv 1 = 216" using e by simp
  next
    assume "uint8At dv 0 = 255 \<and> uint8At dv 1 = 216"
    then show "256 * uint8At dv 0 + uint8At dv 1 = 65496" by simp
  qed
  then show ?thesis by (simp add: b uint16At_def)
qed

section \<open>The GPS decoder: what it can end in\<close>

lemma parseGpsFromTiff_unfold:
  assumes "tiffOffset info + 8 \<le> length dv"
    and "readIfdEntries dv (tiffOffset info + uint32At dv (tiffOffset info + 4) (littleEndian info))
           (littleEndian info) (tiffOffset info) = Inr firstIfd"
    and "firstIfd 0x8825 = Some gpsInfo"
    and "readIfdEntries dv (tiffOffset info + valueOrOffset gpsInfo)
           (littleEndian info) (tiffOffset info) = Inr gpsIfd"
  shows "parseGpsFromTiff m dv info =
        (case (gpsIfd 0x0001, gpsIfd 0x0002, gpsIfd 0x0003, gpsIfd 0x0004) of
           (Some latRefEntry, Some latEntry, Some lonRefEntry, Some lonEntry) \<Rightarrow>
             andThen (readAsciiValue m dv latRefEntry) (\<lambda>latRef.
             andThen (readAsciiValue m dv lonRefEntry) (\<lambda>lonRef.
             andThen (readRationalValues dv latEntry (littleEndian info)) (\<lambda>latValues.
             andThen (readRationalValues dv lonEntry (littleEndian info)) (\<lambda>lonValues.
               case (latValues, lonValues) of
                 (Some latVs, Some lonVs) \<Rightarrow>
                   (let latitude = convertToDecimalDegrees latVs latRef;
                        longitude = convertToDecimalDegrees lonVs lonRef
                    in if \<not> isFinite latitude \<or> \<not> isFinite longitude then Inr None
                       else Inr (Some \<lparr>lat = latitude, lng = longitude\<rparr>))
               | _ \<Rightarrow> Inr None))))
         | _ \<Rightarrow> Inr None)"
proof -
  have hd: "getUint32 dv (tiffOffset info + 4) (littleEndian info)
      = Inr (uint32At dv (tiffOffset info + 4) (littleEndian info))"
    using assms(1) by (simp add: getUint32_ok)
  have nfit: "\<not> length dv < tiffOffset info + 8" using assms(1) by simp
  show ?thesis
    unfolding parseGpsFromTiff_def
    by (simp only: nfit if_False hd andThen.simps Let_def assms(2,3,4) option.case)
qed

lemma parseGpsFromTiff_long_reference:
  assumes "tiffOffset info + 8 \<le> length dv"
    and "readIfdEntries dv (tiffOffset info + uint32At dv (tiffOffset info + 4) (littleEndian info))
           (littleEndian info) (tiffOffset info) = Inr firstIfd"
    and "firstIfd 0x8825 = Some gpsInfo"
    and "readIfdEntries dv (tiffOffset info + valueOrOffset gpsInfo)
           (littleEndian info) (tiffOffset info) = Inr gpsIfd"
    and "referenceTooLong m dv gpsIfd"
  shows "parseGpsFromTiff m dv info = Inl RangeError"
proof -
  obtain a b c d where e: "gpsIfd 0x0001 = Some a" "gpsIfd 0x0002 = Some b"
      "gpsIfd 0x0003 = Some c" "gpsIfd 0x0004 = Some d"
    and long: "m < length (referenceBytes dv a) \<or> m < length (referenceBytes dv c)"
    using assms(5) by (auto simp: referenceTooLong_def split: option.splits)
  note u = parseGpsFromTiff_unfold [OF assms(1,2,3,4), of m]
  show ?thesis
  proof (cases "m < length (referenceBytes dv a)")
    case True
    then show ?thesis
      unfolding u
      by (simp only: e prod.case option.case readAsciiValue_eq if_True andThen.simps)
  next
    case False
    then have c: "m < length (referenceBytes dv c)" using long by simp
    show ?thesis
      unfolding u
      by (simp only: e prod.case option.case readAsciiValue_eq False c if_True if_False
            andThen.simps)
  qed
qed

lemma referenceTooLong_short:
  assumes "length dv \<le> m"
  shows "\<not> referenceTooLong m dv gpsIfd"
proof -
  have "\<not> m < length (referenceBytes dv e)" for e
    using assms referenceBytes_length [of dv e] by linarith
  then show ?thesis
    by (simp add: referenceTooLong_def split: option.splits)
qed

lemma parseGpsFromTiff_returns:
  assumes "tiffOffset info + 8 \<le> length dv"
    and "readIfdEntries dv (tiffOffset info + uint32At dv (tiffOffset info + 4) (littleEndian info))
           (littleEndian info) (tiffOffset info) = Inr firstIfd"
    and "firstIfd 0x8825 = Some gpsInfo"
    and "readIfdEntries dv (tiffOffset info + valueOrOffset gpsInfo)
           (littleEndian info) (tiffOffset info) = Inr gpsIfd"
    and "\<not> referenceTooLong m dv gpsIfd"
  shows "\<exists>r. parseGpsFromTiff m dv info = Inr r"
proof -
  let ?le = "littleEndian info"
  note u = parseGpsFromTiff_unfold [OF assms(1,2,3,4), of m]
  show ?thesis
  proof (cases "\<exists>a b c d. gpsIfd 0x0001 = Some a \<and> gpsIfd 0x0002 = Some b
      \<and> gpsIfd 0x0003 = Some c \<and> gpsIfd 0x0004 = Some d")
    case True
    then obtain a b c d where e: "gpsIfd 0x0001 = Some a" "gpsIfd 0x0002 = Some b"
      "gpsIfd 0x0003 = Some c" "gpsIfd 0x0004 = Some d" by blast
    have "referenceTooLong m dv gpsIfd
        = (m < length (referenceBytes dv a) \<or> m < length (referenceBytes dv c))"
      by (simp only: referenceTooLong_def e prod.case option.case)
    then have s: "\<not> m < length (referenceBytes dv a)" "\<not> m < length (referenceBytes dv c)"
      using assms(5) by simp_all
    obtain x where x: "readRationalValues dv b ?le = Inr x"
      using readRationalValues_total by blast
    obtain y where y: "readRationalValues dv d ?le = Inr y"
      using readRationalValues_total by blast
    show ?thesis
      unfolding u
      by (simp only: e prod.case option.case readAsciiValue_eq s if_False andThen.simps
            x y Let_def)
         (auto split: option.split)
  next
    case False
    then show ?thesis
      unfolding u by (auto split: option.split)
  qed
qed

lemma parseGpsFromTiff_failure:
  assumes "parseGpsFromTiff m dv info = Inl e"
  shows "e = RangeError \<and> (\<exists>firstIfd gpsInfo gpsIfd.
      readIfdEntries dv (tiffOffset info + uint32At dv (tiffOffset info + 4) (littleEndian info))
        (littleEndian info) (tiffOffset info) = Inr firstIfd
      \<and> firstIfd 0x8825 = Some gpsInfo
      \<and> readIfdEntries dv (tiffOffset info + valueOrOffset gpsInfo)
          (littleEndian info) (tiffOffset info) = Inr gpsIfd
      \<and> referenceTooLong m dv gpsIfd)"
proof (cases "tiffOffset info + 8 > length dv")
  case True
  then show ?thesis using assms by (simp add: parseGpsFromTiff_def)
next
  case False
  let ?le = "littleEndian info"
  have fit: "tiffOffset info + 8 \<le> length dv" using False by simp
  have hd: "getUint32 dv (tiffOffset info + 4) ?le = Inr (uint32At dv (tiffOffset info + 4) ?le)"
    using False by (simp add: getUint32_ok)
  obtain firstIfd where f: "readIfdEntries dv
      (tiffOffset info + uint32At dv (tiffOffset info + 4) ?le) ?le (tiffOffset info) = Inr firstIfd"
    using readIfdEntries_total by blast
  show ?thesis
  proof (cases "firstIfd 0x8825")
    case None
    have "parseGpsFromTiff m dv info = Inr None"
      unfolding parseGpsFromTiff_def
      by (simp only: False if_False hd andThen.simps Let_def f None option.case)
    then show ?thesis using assms by simp
  next
    case (Some gpsInfo)
    obtain gpsIfd where g: "readIfdEntries dv (tiffOffset info + valueOrOffset gpsInfo) ?le
        (tiffOffset info) = Inr gpsIfd"
      using readIfdEntries_total by blast
    have long: "referenceTooLong m dv gpsIfd"
      using parseGpsFromTiff_returns [OF fit f Some g, of m] assms by auto
    have "parseGpsFromTiff m dv info = Inl RangeError"
      using fit f Some g long by (rule parseGpsFromTiff_long_reference)
    then have "e = RangeError" using assms by simp
    then show ?thesis using f Some g long by blast
  qed
qed

lemma parseGpsFromTiff_total:
  assumes "length dv \<le> m"
  shows "\<exists>r. parseGpsFromTiff m dv info = Inr r"
proof (cases "parseGpsFromTiff m dv info")
  case (Inl e)
  then show ?thesis
    using parseGpsFromTiff_failure [OF Inl] referenceTooLong_short [OF assms] by blast
next
  case (Inr r)
  then show ?thesis by blast
qed

section \<open>Evaluation on concrete files\<close>

lemmas reads = getUint8_def getUint16_def getUint32_def uint8At_def uint16At_def uint32At_def

lemmas jpeg_eval = locateExifSegment_def locateExifSegment_loop.simps getAscii_def
  getAscii_loop.simps exifHeaderTest_def str_Exif_def str_II_def str_MM_def isJpeg_def

lemmas hint_eval = isHeicFileType_def toLowerCase_def toLowerCaseUnit_def endsWith_def
  str_heic_def str_heif_def str_dot_heic_def str_dot_heif_def

lemmas heic_eval = exifSignatureAt_def validByteOrderAt_def bytesAt_def heicSignature_def
  str_II_def str_MM_def

lemmas heic_scan_eval = locateExifSegmentInHeic_def locateExifSegmentInHeic_loop.simps
  heicMatch_loop.simps heicSignature_def getAscii_def getAscii_loop.simps str_II_def str_MM_def

lemmas string_eval = trim_def toUpperCase_def toUpperCaseUnit_def isWhiteSpace_def
  str_S_def str_W_def

lemmas ifd_eval = readIfdEntries_def readIfdEntries_loop.simps getTypeSize_def

lemmas gps_eval = parseGpsFromTiff_def readAsciiValue_def readAsciiValue_loop.simps
  fromCharCode_def readRationalValues_def readRationalValues_loop.simps


lemma rd_numeral:
  "(numeral n :: nat) < 2 ^ 53 \<Longrightarrow> roundToDouble (numeral n) = numeral n"
  using rd_of_nat [of "numeral n"] by simp

lemma rd_value_1: "roundToDouble (2 / 3) = 6004799503160661 / 9007199254740992"
  using rd_certificate [of "2 / 3" 53 6004799503160661] by simp

lemma rd_value_2: "roundToDouble (1 / 80) = 3602879701896397 / 288230376151711744"
  using rd_certificate [of "1 / 80" 59 7205759403792794] by simp

lemma rd_value_3: "roundToDouble (321256773419095381 / 9007199254740992) = 5019637084673365 / 140737488355328"
  using rd_certificate [of "321256773419095381 / 9007199254740992" 47 5019637084673365] by simp

lemma rd_value_4: "roundToDouble (10283819629112947917 / 288230376151711744) = 5021396303277807 / 140737488355328"
  using rd_certificate [of "10283819629112947917 / 288230376151711744" 47 5021396303277807] by simp

lemma rd_value_5: "roundToDouble (41 / 60) = 3077459745369839 / 4503599627370496"
  using rd_certificate [of "41 / 60" 53 6154919490739678] by simp

lemma rd_value_6: "roundToDouble (1 / 120) = 4803839602528529 / 576460752303423488"
  using rd_certificate [of "1 / 120" 59 4803839602528529] by simp

lemma rd_value_7: "roundToDouble (629077807949868783 / 4503599627370496) = 2457335187304175 / 17592186044416"
  using rd_certificate [of "629077807949868783 / 4503599627370496" 45 4914670374608350] by simp

lemma rd_value_8: "roundToDouble (80526763257185734929 / 576460752303423488) = 2457481788854545 / 17592186044416"
  using rd_certificate [of "80526763257185734929 / 576460752303423488" 45 4914963577709090] by simp

lemma rd_value_9: "roundToDouble (453 / 10) = 3187704111248179 / 70368744177664"
  using rd_certificate [of "453 / 10" 47 6375408222496358] by simp

lemma rd_value_10: "roundToDouble (3187704111248179 / 253327479039590400) = 3626898899909039 / 288230376151711744"
  using rd_certificate [of "3187704111248179 / 253327479039590400" 59 7253797799818078] by simp

lemma rd_value_11: "roundToDouble (10283843648310960559 / 288230376151711744) = 1255352007850459 / 35184372088832"
  using rd_certificate [of "10283843648310960559 / 288230376151711744" 47 5021408031401836] by simp

lemmas rd_values = rd_numeral rd_value_1 rd_value_2 rd_value_3 rd_value_4 rd_value_5
  rd_value_6 rd_value_7 rd_value_8 rd_value_9 rd_value_10 rd_value_11

text \<open>
  The sample latitude N 35 40 45 is the binary64 value 35.67916666666667 and the sample
  longitude E 139 41 30 is 139.69166666666666.
\<close>

lemma convert_sample_latitude:
  "convertToDecimalDegrees
     [\<lparr>numerator = 35, denominator = 1\<rparr>, \<lparr>numerator = 40, denominator = 1\<rparr>,
      \<lparr>numerator = 45, denominator = 1\<rparr>] [0x4E]
   = Finite (5021396303277807 / 140737488355328)"
  by (subst convert_value) (simp_all add: string_eval rd_values)

lemma convert_sample_longitude:
  "convertToDecimalDegrees
     [\<lparr>numerator = 139, denominator = 1\<rparr>, \<lparr>numerator = 41, denominator = 1\<rparr>,
      \<lparr>numerator = 30, denominator = 1\<rparr>] [0x45]
   = Finite (2457481788854545 / 17592186044416)"
  by (subst convert_value) (simp_all add: string_eval rd_values)

lemmas convert_sample = convert_sample_latitude [unfolded One_nat_def]
  convert_sample_longitude [unfolded One_nat_def]

lemma gpsSample_found:
  "parseGpsFromTiff 65535 (gpsSample 1) \<lparr>tiffOffset = 0, littleEndian = True\<rparr>
     = Inr (Some \<lparr>lat = Finite (5021396303277807 / 140737488355328),
                  lng = Finite (2457481788854545 / 17592186044416)\<rparr>)"
  by (simp add: gpsSample_def gps_eval ifd_eval reads convert_sample)

text \<open>The sample with the long latitude reference makes the decoder throw.\<close>

lemma longReferenceSample_range_error:
  "parseGpsFromTiff 65535 (longReferenceSample d) \<lparr>tiffOffset = 0, littleEndian = True\<rparr>
     = Inl RangeError"
proof -
  let ?dv = "longReferenceSample d"
  let ?info = "\<lparr>tiffOffset = 0, littleEndian = True\<rparr>"
  let ?first = "[0x8825 \<mapsto> \<lparr>etype = 4, ecount = 1, dataOffset = 18, valueOrOffset = 26,
                   valueSize = 4\<rparr>] :: directory"
  let ?latRef = "\<lparr>etype = 2, ecount = 70000, dataOffset = 128, valueOrOffset = 128,
                   valueSize = 70000\<rparr>"
  let ?gps = "[1 \<mapsto> ?latRef,
            2 \<mapsto> \<lparr>etype = 5, ecount = 3, dataOffset = 80, valueOrOffset = 80, valueSize = 24\<rparr>,
            3 \<mapsto> \<lparr>etype = 2, ecount = 2, dataOffset = 60, valueOrOffset = 69, valueSize = 2\<rparr>,
            4 \<mapsto> \<lparr>etype = 5, ecount = 3, dataOffset = 104, valueOrOffset = 104, valueSize = 24\<rparr>]
            :: directory"
  have h1: "tiffOffset ?info + 8 \<le> length ?dv"
    by (simp add: longReferenceSample_def)
  have h2: "readIfdEntries ?dv
      (tiffOffset ?info + uint32At ?dv (tiffOffset ?info + 4) (littleEndian ?info))
      (littleEndian ?info) (tiffOffset ?info) = Inr ?first"
    by (simp add: longReferenceSample_def ifd_eval reads)
  have h3: "?first 0x8825 = Some \<lparr>etype = 4, ecount = 1, dataOffset = 18, valueOrOffset = 26,
                   valueSize = 4\<rparr>"
    by simp
  have h4: "readIfdEntries ?dv
      (tiffOffset ?info + valueOrOffset \<lparr>etype = 4, ecount = 1, dataOffset = 18,
         valueOrOffset = 26, valueSize = 4\<rparr>)
      (littleEndian ?info) (tiffOffset ?info) = Inr ?gps"
    by (simp add: longReferenceSample_def ifd_eval reads)
  have "referenceBytes ?dv ?latRef = replicate 70000 0x4E"
    by (simp add: referenceBytes_def bytesAt_def longReferenceSample_def)
  then have h5: "referenceTooLong 65535 ?dv ?gps"
    by (simp add: referenceTooLong_def)
  show ?thesis
    using h1 h2 h3 h4 h5 by (rule parseGpsFromTiff_long_reference)
qed

section \<open>The claims\<close>

text \<open>
  C1 (fails on the code). The claim: for every buffer and every hint the extraction
  returns a coordinate or a "not found" reason and never reads outside the buffer.
  The JPEG walk checks the four signature bytes through \<open>getAscii\<close>, which is
  bounds-checked, and then reads the two zero bytes after them with \<open>getUint8\<close> and no
  check. On the 10-byte file below (SOI, an APP1 marker of length 8, and \<open>Exif\<close> as the
  last four bytes; MIME type \<open>image/jpeg\<close>, name \<open>a.jpg\<close>) the read at offset 10 is
  outside the buffer and the extraction ends in the getter's \<open>RangeError\<close>, whatever
  the engine's argument limit. (The extraction has a second way to a \<open>RangeError\<close>, a
  GPS reference longer than the argument limit: see C9.)
\<close>

theorem extract_truncated_exif_header_range_error:
  "extractGpsFromFile m
     \<lparr>arrayBuffer = [0xFF, 0xD8, 0xFF, 0xE1, 0x00, 0x08, 0x45, 0x78, 0x69, 0x66],
      ftype = [0x69, 0x6D, 0x61, 0x67, 0x65, 0x2F, 0x6A, 0x70, 0x65, 0x67],
      fname = [0x61, 0x2E, 0x6A, 0x70, 0x67]\<rparr>
   = Inl RangeError"
  by (simp add: extractGpsFromFile_def jpeg_eval hint_eval reads)

text \<open>
  C2 (corrected). The claim: a buffer that starts with \<open>0xFFD8\<close> goes to the JPEG
  walk whatever its length and whatever the hint. The code asks the hint first: a file
  whose MIME type or name matches the HEIC pattern goes to the HEIC scan even when it
  starts with \<open>0xFFD8\<close>; and \<open>isJpeg\<close> refuses a buffer of fewer than 4 bytes. What
  holds: with a HEIC hint the HEIC scan runs; without one the JPEG walk runs exactly
  when the buffer has at least 4 bytes and starts with \<open>0xFFD8\<close>; otherwise the result
  is \<open>UnsupportedFormat\<close> and neither locator runs.
\<close>

theorem extract_route_by_hint_then_signature:
  "extractGpsFromFile m f =
     (if isHeicFileType (toLowerCase (ftype f)) (toLowerCase (fname f))
      then andThen (locateExifSegmentInHeic (arrayBuffer f)) (\<lambda>exifInfo.
             case exifInfo of
               None \<Rightarrow> Inl NoLocationInHeic
             | Some info \<Rightarrow> parseGpsFromTiff m (arrayBuffer f) info)
      else if 4 \<le> length (arrayBuffer f) \<and> bytesAt (arrayBuffer f) 0 2 = [0xFF, 0xD8]
      then andThen (locateExifSegment (arrayBuffer f)) (\<lambda>exifInfo.
             case exifInfo of
               None \<Rightarrow> Inl MetadataNotFound
             | Some info \<Rightarrow> parseGpsFromTiff m (arrayBuffer f) info)
      else Inl UnsupportedFormat)"
proof (cases "4 \<le> length (arrayBuffer f)")
  case True
  then have "(uint16At (arrayBuffer f) 0 False = 0xffd8)
      = (bytesAt (arrayBuffer f) 0 2 = [0xFF, 0xD8])"
    by (intro soi_bytes) simp
  then show ?thesis by (simp add: extractGpsFromFile_routes)
next
  case False
  then show ?thesis by (simp add: extractGpsFromFile_routes)
qed

text \<open>
  The sample JPEG gives its coordinates, 35.67916666666667 and 139.69166666666666, on
  both routes; the bare TIFF stream is an unsupported format.
\<close>

theorem extract_route_witness:
  "extractGpsFromFile 65535 \<lparr>arrayBuffer = jpegGpsSample, ftype = str_image_jpeg, fname = []\<rparr>
     = Inr (Some \<lparr>lat = Finite (5021396303277807 / 140737488355328),
                  lng = Finite (2457481788854545 / 17592186044416)\<rparr>)
   \<and> extractGpsFromFile 65535 \<lparr>arrayBuffer = jpegGpsSample, ftype = str_image_heic, fname = []\<rparr>
     = Inr (Some \<lparr>lat = Finite (5021396303277807 / 140737488355328),
                  lng = Finite (2457481788854545 / 17592186044416)\<rparr>)
   \<and> extractGpsFromFile 65535 \<lparr>arrayBuffer = gpsSample 1, ftype = str_image_jpeg, fname = []\<rparr>
     = Inl UnsupportedFormat"
proof -
  have j: "locateExifSegment jpegGpsSample = Inr (Some \<lparr>tiffOffset = 12, littleEndian = True\<rparr>)"
    by (simp add: jpegGpsSample_def gpsSample_def jpeg_eval reads)
  have h: "locateExifSegmentInHeic jpegGpsSample
      = Inr (Some \<lparr>tiffOffset = 12, littleEndian = True\<rparr>)"
    by (simp add: jpegGpsSample_def gpsSample_def heic_scan_eval reads)
  have p: "parseGpsFromTiff 65535 jpegGpsSample \<lparr>tiffOffset = 12, littleEndian = True\<rparr>
      = Inr (Some \<lparr>lat = Finite (5021396303277807 / 140737488355328),
                   lng = Finite (2457481788854545 / 17592186044416)\<rparr>)"
    by (simp add: jpegGpsSample_def gpsSample_def gps_eval ifd_eval reads convert_sample)
  have b: "bytesAt jpegGpsSample 0 2 = [0xFF, 0xD8]" "4 \<le> length jpegGpsSample"
    "bytesAt (gpsSample 1) 0 2 \<noteq> [0xFF, 0xD8]"
    by (simp_all add: jpegGpsSample_def gpsSample_def bytesAt_def)
  have t: "\<not> isHeicFileType (toLowerCase str_image_jpeg) (toLowerCase [])"
    "isHeicFileType (toLowerCase str_image_heic) (toLowerCase [])"
    by (simp_all add: hint_eval str_image_jpeg_def str_image_heic_def)
  show ?thesis
    by (simp add: extract_route_by_hint_then_signature j h p b t)
qed

text \<open>
  C2, the counterexample: a 5-byte buffer that starts with \<open>0xFFD8\<close>, with the MIME
  type \<open>image/heic\<close>, ends in the error of the HEIC route and not in what the JPEG route
  gives; and a 3-byte buffer that starts with \<open>0xFFD8\<close> is an unsupported format.
\<close>

theorem heic_hint_overrides_jpeg_signature:
  "bytesAt [0xFF, 0xD8, 0x00, 0x00, 0x00] 0 2 = [0xFF, 0xD8]
   \<and> extractGpsFromFile 65535
        \<lparr>arrayBuffer = [0xFF, 0xD8, 0x00, 0x00, 0x00], ftype = str_image_heic, fname = []\<rparr>
       = Inl NoLocationInHeic
   \<and> extractGpsFromFile 65535
        \<lparr>arrayBuffer = [0xFF, 0xD8, 0x00, 0x00, 0x00], ftype = str_image_heic, fname = []\<rparr>
       \<noteq> andThen (locateExifSegment [0xFF, 0xD8, 0x00, 0x00, 0x00]) (\<lambda>exifInfo.
             case exifInfo of
               None \<Rightarrow> Inl MetadataNotFound
             | Some info \<Rightarrow> parseGpsFromTiff 65535 [0xFF, 0xD8, 0x00, 0x00, 0x00] info)
   \<and> bytesAt [0xFF, 0xD8, 0xFF] 0 2 = [0xFF, 0xD8]
   \<and> extractGpsFromFile 65535
        \<lparr>arrayBuffer = [0xFF, 0xD8, 0xFF], ftype = str_image_jpeg, fname = []\<rparr>
       = Inl UnsupportedFormat"
  by (simp add: extractGpsFromFile_def jpeg_eval hint_eval heic_scan_eval reads bytesAt_def
        str_image_heic_def str_image_jpeg_def)

text \<open>
  C3 (fails on the code). The claim: after a segment whose length field is \<open>L\<close> (the
  length counts its own two bytes) the next marker is inspected at the marker's offset
  plus \<open>2 + L\<close>. The walk adds \<open>2 + 2 + L\<close>. In the file below an empty APP0 segment
  (length 2) at offset 2 is followed at offset 6 by an APP1 segment with a little-endian
  Exif stream: the walk inspects offset 8 next, finds no marker there and reports no
  stream, although a walk continued at offset \<open>2 + 2 + 2\<close> finds the stream.
\<close>

theorem jpeg_walk_skips_two_bytes_too_many:
  "locateExifSegment
     [0xFF, 0xD8, 0xFF, 0xE0, 0x00, 0x02,
      0xFF, 0xE1, 0x00, 0x10, 0x45, 0x78, 0x69, 0x66, 0x00, 0x00,
      0x49, 0x49, 0x2A, 0x00, 0x08, 0x00, 0x00, 0x00, 0x00, 0x00, 0x00, 0x00, 0x00, 0x00]
   = Inr None
   \<and> locateExifSegment_loop
     [0xFF, 0xD8, 0xFF, 0xE0, 0x00, 0x02,
      0xFF, 0xE1, 0x00, 0x10, 0x45, 0x78, 0x69, 0x66, 0x00, 0x00,
      0x49, 0x49, 0x2A, 0x00, 0x08, 0x00, 0x00, 0x00, 0x00, 0x00, 0x00, 0x00, 0x00, 0x00]
     (2 + 2 + 2)
   = Inr (Some \<lparr>tiffOffset = 16, littleEndian = True\<rparr>)"
  by (simp add: jpeg_eval reads)



text \<open>
  C5. The HEIC scan tries the offsets in turn. A signature \<open>Exif\0\0\<close> whose next two
  bytes are neither \<open>II\<close> nor \<open>MM\<close> does not end the scan: it goes on at the next
  offset, so a later signature with a byte-order marker (and room for the TIFF header)
  is still found. When no offset of the buffer holds the signature followed by a
  byte-order marker the scan returns \<open>null\<close>, and a HEIC-hinted file with no signature
  at all ends in the error of the HEIC route.
\<close>

theorem heic_scan_continues_past_invalid_byte_order:
  "(exifSignatureAt dv p \<and> \<not> validByteOrderAt dv (p + 6) \<longrightarrow>
      locateExifSegmentInHeic_loop dv (int (length dv) - int (length heicSignature) - 2) p
      = locateExifSegmentInHeic_loop dv (int (length dv) - int (length heicSignature) - 2) (p + 1))
   \<and> (exifSignatureAt dv q \<and> validByteOrderAt dv (q + 6) \<and> q + 14 \<le> length dv \<longrightarrow>
      (\<exists>info. locateExifSegmentInHeic dv = Inr (Some info) \<and> tiffOffset info \<le> q + 6))
   \<and> ((\<forall>k. \<not> (exifSignatureAt dv k \<and> validByteOrderAt dv (k + 6))) \<longrightarrow>
      locateExifSegmentInHeic dv = Inr None)
   \<and> (isHeicFileType (toLowerCase (ftype f)) (toLowerCase (fname f))
        \<and> (\<forall>k. \<not> exifSignatureAt (arrayBuffer f) k) \<longrightarrow>
      extractGpsFromFile m f = Inl NoLocationInHeic)"
proof (intro conjI impI)
  assume "exifSignatureAt dv p \<and> \<not> validByteOrderAt dv (p + 6)"
  then have "\<not> heicAccepts dv p" by (simp add: heicAccepts_def)
  then show "locateExifSegmentInHeic_loop dv (int (length dv) - int (length heicSignature) - 2) p
      = locateExifSegmentInHeic_loop dv (int (length dv) - int (length heicSignature) - 2) (p + 1)"
    unfolding heic_max by (rule heic_skip)
next
  assume "exifSignatureAt dv q \<and> validByteOrderAt dv (q + 6) \<and> q + 14 \<le> length dv"
  then have acc: "heicAccepts dv q" by (simp add: heicAccepts_def)
  then have ex: "\<exists>p. heicAccepts dv p" by blast
  have "(LEAST p. heicAccepts dv p) \<le> q" using acc by (rule Least_le)
  then show "\<exists>info. locateExifSegmentInHeic dv = Inr (Some info) \<and> tiffOffset info \<le> q + 6"
    using ex by (simp add: heic_result)
next
  assume "\<forall>k. \<not> (exifSignatureAt dv k \<and> validByteOrderAt dv (k + 6))"
  then have "\<not> (\<exists>p. heicAccepts dv p)" by (simp add: heicAccepts_def)
  then show "locateExifSegmentInHeic dv = Inr None" by (simp add: heic_result)
next
  assume a: "isHeicFileType (toLowerCase (ftype f)) (toLowerCase (fname f))
        \<and> (\<forall>k. \<not> exifSignatureAt (arrayBuffer f) k)"
  then have "\<not> (\<exists>p. heicAccepts (arrayBuffer f) p)" by (simp add: heicAccepts_def)
  then have "locateExifSegmentInHeic (arrayBuffer f) = Inr None" by (simp add: heic_result)
  then show "extractGpsFromFile m f = Inl NoLocationInHeic"
    using a by (simp add: extractGpsFromFile_routes)
qed

theorem heic_scan_continues_witness:
  "exifSignatureAt
     [0x45, 0x78, 0x69, 0x66, 0x00, 0x00, 0x58, 0x58, 0x45, 0x78, 0x69, 0x66, 0x00, 0x00,
      0x4D, 0x4D, 0x00, 0x2A, 0x00, 0x00, 0x00, 0x08, 0x00, 0x00] 0
   \<and> \<not> validByteOrderAt
     [0x45, 0x78, 0x69, 0x66, 0x00, 0x00, 0x58, 0x58, 0x45, 0x78, 0x69, 0x66, 0x00, 0x00,
      0x4D, 0x4D, 0x00, 0x2A, 0x00, 0x00, 0x00, 0x08, 0x00, 0x00] 6
   \<and> exifSignatureAt
     [0x45, 0x78, 0x69, 0x66, 0x00, 0x00, 0x58, 0x58, 0x45, 0x78, 0x69, 0x66, 0x00, 0x00,
      0x4D, 0x4D, 0x00, 0x2A, 0x00, 0x00, 0x00, 0x08, 0x00, 0x00] 8
   \<and> validByteOrderAt
     [0x45, 0x78, 0x69, 0x66, 0x00, 0x00, 0x58, 0x58, 0x45, 0x78, 0x69, 0x66, 0x00, 0x00,
      0x4D, 0x4D, 0x00, 0x2A, 0x00, 0x00, 0x00, 0x08, 0x00, 0x00] 14
   \<and> (\<exists>info. locateExifSegmentInHeic
     [0x45, 0x78, 0x69, 0x66, 0x00, 0x00, 0x58, 0x58, 0x45, 0x78, 0x69, 0x66, 0x00, 0x00,
      0x4D, 0x4D, 0x00, 0x2A, 0x00, 0x00, 0x00, 0x08, 0x00, 0x00] = Inr (Some info)
        \<and> tiffOffset info \<le> 14)
   \<and> isHeicFileType (toLowerCase [0x49, 0x4D, 0x47, 0x2E, 0x48, 0x45, 0x49, 0x43]) (toLowerCase [])
   \<and> extractGpsFromFile 65535
     \<lparr>arrayBuffer = [0x00, 0x00, 0x00, 0x18, 0x66, 0x74, 0x79, 0x70, 0x68, 0x65, 0x69, 0x63,
                     0x00, 0x00, 0x00, 0x00],
      ftype = [0x49, 0x4D, 0x47, 0x2E, 0x48, 0x45, 0x49, 0x43], fname = []\<rparr>
     = Inl NoLocationInHeic"
proof -
  let ?W = "[0x45, 0x78, 0x69, 0x66, 0x00, 0x00, 0x58, 0x58, 0x45, 0x78, 0x69, 0x66, 0x00, 0x00,
      0x4D, 0x4D, 0x00, 0x2A, 0x00, 0x00, 0x00, 0x08, 0x00, 0x00] :: dataView"
  let ?f = "\<lparr>arrayBuffer = [0x00, 0x00, 0x00, 0x18, 0x66, 0x74, 0x79, 0x70, 0x68, 0x65, 0x69, 0x63,
                     0x00, 0x00, 0x00, 0x00],
      ftype = [0x49, 0x4D, 0x47, 0x2E, 0x48, 0x45, 0x49, 0x43], fname = []\<rparr>"
  have h1: "exifSignatureAt ?W 0" "\<not> validByteOrderAt ?W 6" "exifSignatureAt ?W 8"
    "validByteOrderAt ?W 14"
    by (simp_all add: heic_eval)
  have h2: "isHeicFileType (toLowerCase (ftype ?f)) (toLowerCase (fname ?f))"
    by (simp add: hint_eval)
  have h3: "\<forall>k. \<not> exifSignatureAt (arrayBuffer ?f) k"
    using exifSignatureAt_first_byte by fastforce
  show ?thesis
    using heic_scan_continues_past_invalid_byte_order
            [where dv = ?W and p = 0 and q = 8 and f = ?f and m = 65535] h1 h2 h3
    by simp
qed

text \<open>
  C6. \<open>readIfdEntries\<close> never throws. It returns the empty directory when the offset
  is not positive or the 2-byte count does not fit in the buffer. Otherwise it reads
  the 16-bit count and decodes the 12-byte records in order, as many as the count says
  and as fit completely in the buffer: a record that would pass the end of the buffer
  ends the loop, which returns the entries stored so far.
\<close>

theorem readIfdEntries_soft_failure:
  "readIfdEntries dv offset le baseOffset =
     Inr (if offset \<le> 0 \<or> offset + 2 > length dv then Map.empty
          else foldl addRecord Map.empty
                 (map (\<lambda>k. ifdRecordAt dv le baseOffset (offset + 2 + 12 * k))
                    [0..<min (uint16At dv offset le) ((length dv - (offset + 2)) div 12)]))
   \<and> (index < entryCount \<and> cursor + 12 > length dv \<longrightarrow>
        readIfdEntries_loop dv le baseOffset entryCount index cursor entries = Inr entries)"
proof -
  have a: "readIfdEntries dv offset le baseOffset =
     Inr (if offset \<le> 0 \<or> offset + 2 > length dv then Map.empty
          else foldl addRecord Map.empty
                 (map (\<lambda>k. ifdRecordAt dv le baseOffset (offset + 2 + 12 * k))
                    [0..<min (uint16At dv offset le) ((length dv - (offset + 2)) div 12)]))"
  proof (cases "offset \<le> 0 \<or> offset + 2 > length dv")
    case True
    then show ?thesis by (simp add: readIfdEntries_def)
  next
    case False
    then have rd: "getUint16 dv offset le = Inr (uint16At dv offset le)"
      by (simp add: getUint16_ok)
    show ?thesis
      using False by (simp add: readIfdEntries_def rd readIfdEntries_loop_eq)
  qed
  have b: "readIfdEntries_loop dv le baseOffset entryCount index cursor entries = Inr entries"
    if "index < entryCount \<and> cursor + 12 > length dv"
    using that by (intro readIfdEntries_loop_stop) simp
  show ?thesis using a b by blast
qed

theorem readIfdEntries_soft_failure_witness:
  "readIfdEntries truncatedIfdSample 8 True 0
     = Inr [0x8825 \<mapsto> \<lparr>etype = 4, ecount = 1, dataOffset = 18, valueOrOffset = 26,
                       valueSize = 4\<rparr>]
   \<and> readIfdEntries truncatedIfdSample 0 True 0 = Inr Map.empty
   \<and> readIfdEntries truncatedIfdSample 26 True 0 = Inr Map.empty
   \<and> (1::nat) < 3 \<and> 22 + 12 > length truncatedIfdSample
   \<and> readIfdEntries_loop truncatedIfdSample True 0 3 1 22
        [0x8825 \<mapsto> \<lparr>etype = 4, ecount = 1, dataOffset = 18, valueOrOffset = 26,
                     valueSize = 4\<rparr>]
     = Inr [0x8825 \<mapsto> \<lparr>etype = 4, ecount = 1, dataOffset = 18, valueOrOffset = 26,
                       valueSize = 4\<rparr>]"
proof -
  let ?e = "[0x8825 \<mapsto> \<lparr>etype = 4, ecount = 1, dataOffset = 18, valueOrOffset = 26,
                       valueSize = 4\<rparr>] :: directory"
  have h: "(1::nat) < 3 \<and> 22 + 12 > length truncatedIfdSample"
    by (simp add: truncatedIfdSample_def)
  note t1 = readIfdEntries_soft_failure [of truncatedIfdSample 8 True 0 1 3 22 ?e]
  note t2 = readIfdEntries_soft_failure [of truncatedIfdSample 0 True 0 1 3 22 ?e, THEN conjunct1]
  note t3 = readIfdEntries_soft_failure [of truncatedIfdSample 26 True 0 1 3 22 ?e, THEN conjunct1]
  have c1: "readIfdEntries truncatedIfdSample 8 True 0 = Inr ?e"
    unfolding t1 [THEN conjunct1]
    by (simp add: truncatedIfdSample_def ifdRecordAt_def addRecord_def getTypeSize_def
          uint8At_def uint16At_def uint32At_def)
  have c2: "readIfdEntries truncatedIfdSample 0 True 0 = Inr Map.empty"
    unfolding t2 by simp
  have c3: "readIfdEntries truncatedIfdSample 26 True 0 = Inr Map.empty"
    unfolding t3 by (simp add: truncatedIfdSample_def)
  show ?thesis
    using c1 c2 c3 h t1 [THEN conjunct2, THEN mp, OF h] by (intro conjI) simp_all
qed




text \<open>
  C8 (corrected). The claim: an APP1 segment with the Exif signature and a byte-order
  marker that is neither \<open>II\<close> nor \<open>MM\<close> gives a result of its own, distinct from "no
  metadata found". The code returns \<open>null\<close> from \<open>locateExifSegment\<close> in both cases and
  \<open>extractGpsFromFile\<close> throws the same error. What holds: when the walk inspects such
  a segment in a JPEG-signed file without a HEIC hint, the locator returns \<open>null\<close> and
  the extraction ends in the "metadata not found" error.
\<close>

theorem invalid_byte_order_reported_as_metadata_not_found:
  assumes "walkInspects (arrayBuffer f) offset"
    and "uint8At (arrayBuffer f) offset = 0xff"
    and "uint8At (arrayBuffer f) (offset + 1) = 0xe1"
    and "8 \<le> uint16At (arrayBuffer f) (offset + 2) False"
    and "exifSignatureAt (arrayBuffer f) (offset + 4)"
    and "\<not> validByteOrderAt (arrayBuffer f) (offset + 10)"
    and "4 \<le> length (arrayBuffer f) \<and> bytesAt (arrayBuffer f) 0 2 = [0xFF, 0xD8]"
    and "\<not> isHeicFileType (toLowerCase (ftype f)) (toLowerCase (fname f))"
  shows "locateExifSegment (arrayBuffer f) = Inr None
       \<and> extractGpsFromFile m f = Inl MetadataNotFound"
proof -
  have "locateExifSegment (arrayBuffer f) = locateExifSegment_loop (arrayBuffer f) offset"
    using assms(1) by (rule walk_reaches)
  also have "\<dots> = Inr None"
    using jpeg_at_exif_header [OF assms(2,3,4,5)] assms(6) by simp
  finally have n: "locateExifSegment (arrayBuffer f) = Inr None" .
  have j: "uint16At (arrayBuffer f) 0 False = 0xffd8"
    using assms(7) soi_bytes [of "arrayBuffer f"] by simp
  have "extractGpsFromFile m f = Inl MetadataNotFound"
    using assms(7,8) j by (simp add: extractGpsFromFile_routes n)
  then show ?thesis using n by simp
qed

theorem invalid_byte_order_witness:
  "walkInspects badByteOrderSample 8
   \<and> uint8At badByteOrderSample 8 = 0xff \<and> uint8At badByteOrderSample (8 + 1) = 0xe1
   \<and> 8 \<le> uint16At badByteOrderSample (8 + 2) False
   \<and> exifSignatureAt badByteOrderSample (8 + 4)
   \<and> \<not> validByteOrderAt badByteOrderSample (8 + 10)
   \<and> bytesAt badByteOrderSample 0 2 = [0xFF, 0xD8]
   \<and> locateExifSegment badByteOrderSample = Inr None
   \<and> extractGpsFromFile 65535 \<lparr>arrayBuffer = badByteOrderSample, ftype = str_image_jpeg, fname = []\<rparr>
       = Inl MetadataNotFound"
proof -
  let ?f = "\<lparr>arrayBuffer = badByteOrderSample, ftype = str_image_jpeg, fname = []\<rparr>"
  have "walkInspects badByteOrderSample (2 + 2 + 2 + uint16At badByteOrderSample (2 + 2) False)"
    by (rule walkInspects.advance [OF walkInspects.start])
       (simp_all add: badByteOrderSample_def uint8At_def uint16At_def)
  then have h1: "walkInspects (arrayBuffer ?f) 8"
    by (simp add: badByteOrderSample_def uint8At_def uint16At_def)
  have h2: "uint8At (arrayBuffer ?f) 8 = 0xff" "uint8At (arrayBuffer ?f) (8 + 1) = 0xe1"
    "8 \<le> uint16At (arrayBuffer ?f) (8 + 2) False"
    by (simp_all add: badByteOrderSample_def uint8At_def uint16At_def)
  have h5: "exifSignatureAt (arrayBuffer ?f) (8 + 4)"
    "\<not> validByteOrderAt (arrayBuffer ?f) (8 + 10)"
    by (simp_all add: badByteOrderSample_def heic_eval)
  have h7: "4 \<le> length (arrayBuffer ?f) \<and> bytesAt (arrayBuffer ?f) 0 2 = [0xFF, 0xD8]"
    by (simp add: badByteOrderSample_def bytesAt_def)
  have h8: "\<not> isHeicFileType (toLowerCase (ftype ?f)) (toLowerCase (fname ?f))"
    by (simp add: hint_eval str_image_jpeg_def)
  note t = invalid_byte_order_reported_as_metadata_not_found
             [OF h1 h2 h5 h7 h8, where m = 65535]
  show ?thesis
    using t h1 h2 h5 h7 by simp
qed

text \<open>
  C8, the counterexample: the sample with the invalid byte order and the sample with no
  Exif signature at all end in the same result.
\<close>

theorem invalid_byte_order_same_result_as_no_exif:
  "exifSignatureAt badByteOrderSample 12 \<and> \<not> validByteOrderAt badByteOrderSample 18
   \<and> (\<forall>k. \<not> exifSignatureAt noExifSample k)
   \<and> extractGpsFromFile 65535 \<lparr>arrayBuffer = badByteOrderSample, ftype = str_image_jpeg, fname = []\<rparr>
       = Inl MetadataNotFound
   \<and> extractGpsFromFile 65535 \<lparr>arrayBuffer = noExifSample, ftype = str_image_jpeg, fname = []\<rparr>
       = Inl MetadataNotFound"
proof -
  have "\<forall>k. \<not> exifSignatureAt noExifSample k"
    using exifSignatureAt_first_byte by (fastforce simp: noExifSample_def)
  then show ?thesis
    by (simp add: extractGpsFromFile_def jpeg_eval hint_eval reads heic_eval
          badByteOrderSample_def noExifSample_def str_image_jpeg_def)
qed

text \<open>
  C9 (fails on the code). The claim: the reader of the GPS reference letters never
  reads outside the buffer and never reports a failure. Its reads are inside the
  buffer, but it hands all the bytes it has collected to one call,
  \<open>String.fromCharCode(...bytes)\<close>, as that many arguments: when the reference holds
  more non-zero bytes before its first zero byte (and the end of the buffer) than the
  engine takes arguments, the call throws a \<open>RangeError\<close>, which nothing catches before
  the caller of \<open>extractGpsFromFile\<close>. The count of the entry is a 32-bit field of the
  file. (\<open>getAscii\<close>, the other string reader of the code, appends one character at a
  time and has no such limit.) Below, a reference of 70000 bytes \<open>N\<close> with the limit
  65535.
\<close>

theorem readAsciiValue_long_reference_range_error:
  assumes "m < length (referenceBytes dv entry)"
  shows "readAsciiValue m dv entry = Inl RangeError"
  using assms by (simp add: readAsciiValue_eq)

theorem readAsciiValue_long_reference_witness:
  "65535 < length (referenceBytes (replicate 70000 0x4E)
       \<lparr>etype = 2, ecount = 70000, dataOffset = 0, valueOrOffset = 0, valueSize = 70000\<rparr>)
   \<and> readAsciiValue 65535 (replicate 70000 0x4E)
       \<lparr>etype = 2, ecount = 70000, dataOffset = 0, valueOrOffset = 0, valueSize = 70000\<rparr>
     = Inl RangeError"
proof -
  have h: "65535 < length (referenceBytes (replicate 70000 0x4E)
       \<lparr>etype = 2, ecount = 70000, dataOffset = 0, valueOrOffset = 0, valueSize = 70000\<rparr>)"
    by (simp add: referenceBytes_def bytesAt_def)
  show ?thesis
    using h readAsciiValue_long_reference_range_error [OF h] by simp
qed

text \<open>
  C10. Every stream the HEIC scan returns starts 6 bytes after a signature, at a
  byte-order marker, and leaves at least 8 bytes from its start to the end of the
  buffer. A signature with a byte-order marker but fewer than 8 bytes after the
  signature is passed over: the scan goes on at the next offset.
\<close>

theorem heic_stream_leaves_room_for_tiff_header:
  "(locateExifSegmentInHeic dv = Inr (Some info) \<longrightarrow>
      tiffOffset info + 8 \<le> length dv \<and> 6 \<le> tiffOffset info
      \<and> exifSignatureAt dv (tiffOffset info - 6) \<and> validByteOrderAt dv (tiffOffset info))
   \<and> (exifSignatureAt dv p \<and> validByteOrderAt dv (p + 6) \<and> length dv < p + 6 + 8 \<longrightarrow>
      locateExifSegmentInHeic_loop dv (int (length dv) - int (length heicSignature) - 2) p
      = locateExifSegmentInHeic_loop dv (int (length dv) - int (length heicSignature) - 2) (p + 1))"
proof -
  have a: "tiffOffset info + 8 \<le> length dv \<and> 6 \<le> tiffOffset info
      \<and> exifSignatureAt dv (tiffOffset info - 6) \<and> validByteOrderAt dv (tiffOffset info)"
    if r: "locateExifSegmentInHeic dv = Inr (Some info)"
  proof -
    define m where "m = (LEAST p. heicAccepts dv p)"
    have ex: "\<exists>p. heicAccepts dv p"
      using r by (auto simp: heic_result split: if_splits)
    then have acc: "heicAccepts dv m"
      unfolding m_def by (rule LeastI_ex)
    have "tiffOffset info = m + 6"
      using r ex unfolding m_def by (auto simp: heic_result)
    then show ?thesis
      using acc by (simp add: heicAccepts_def)
  qed
  have b: "locateExifSegmentInHeic_loop dv (int (length dv) - int (length heicSignature) - 2) p
      = locateExifSegmentInHeic_loop dv (int (length dv) - int (length heicSignature) - 2) (p + 1)"
    if "exifSignatureAt dv p \<and> validByteOrderAt dv (p + 6) \<and> length dv < p + 6 + 8"
  proof -
    have "\<not> heicAccepts dv p" using that by (simp add: heicAccepts_def)
    then show ?thesis unfolding heic_max by (rule heic_skip)
  qed
  show ?thesis using a b by blast
qed

theorem heic_stream_leaves_room_witness:
  "locateExifSegmentInHeic
     [0x00, 0x00, 0x45, 0x78, 0x69, 0x66, 0x00, 0x00, 0x49, 0x49, 0x2A, 0x00, 0x08, 0x00,
      0x00, 0x00] = Inr (Some \<lparr>tiffOffset = 8, littleEndian = True\<rparr>)
   \<and> tiffOffset \<lparr>tiffOffset = 8, littleEndian = True\<rparr> + 8
       \<le> length [0x00, 0x00, 0x45, 0x78, 0x69, 0x66, 0x00, 0x00, 0x49, 0x49, 0x2A, 0x00, 0x08,
                  0x00, 0x00, 0x00 :: byte]
   \<and> exifSignatureAt
     [0x45, 0x78, 0x69, 0x66, 0x00, 0x00, 0x49, 0x49, 0x2A, 0x00, 0x08, 0x00, 0x00] 0
   \<and> validByteOrderAt
     [0x45, 0x78, 0x69, 0x66, 0x00, 0x00, 0x49, 0x49, 0x2A, 0x00, 0x08, 0x00, 0x00] (0 + 6)
   \<and> length [0x45, 0x78, 0x69, 0x66, 0x00, 0x00, 0x49, 0x49, 0x2A, 0x00, 0x08, 0x00,
              0x00 :: byte] < 0 + 6 + 8
   \<and> locateExifSegmentInHeic_loop
     [0x45, 0x78, 0x69, 0x66, 0x00, 0x00, 0x49, 0x49, 0x2A, 0x00, 0x08, 0x00, 0x00]
     (int (length [0x45, 0x78, 0x69, 0x66, 0x00, 0x00, 0x49, 0x49, 0x2A, 0x00, 0x08, 0x00,
                   0x00 :: byte]) - int (length heicSignature) - 2) 0
     = locateExifSegmentInHeic_loop
     [0x45, 0x78, 0x69, 0x66, 0x00, 0x00, 0x49, 0x49, 0x2A, 0x00, 0x08, 0x00, 0x00]
     (int (length [0x45, 0x78, 0x69, 0x66, 0x00, 0x00, 0x49, 0x49, 0x2A, 0x00, 0x08, 0x00,
                   0x00 :: byte]) - int (length heicSignature) - 2) (0 + 1)"
proof -
  let ?W = "[0x00, 0x00, 0x45, 0x78, 0x69, 0x66, 0x00, 0x00, 0x49, 0x49, 0x2A, 0x00, 0x08, 0x00,
      0x00, 0x00] :: dataView"
  let ?V = "[0x45, 0x78, 0x69, 0x66, 0x00, 0x00, 0x49, 0x49, 0x2A, 0x00, 0x08, 0x00, 0x00]
      :: dataView"
  have w: "locateExifSegmentInHeic ?W = Inr (Some \<lparr>tiffOffset = 8, littleEndian = True\<rparr>)"
    by (simp add: heic_scan_eval reads)
  have v: "exifSignatureAt ?V 0" "validByteOrderAt ?V (0 + 6)" "length ?V < 0 + 6 + 8"
    by (simp_all add: heic_eval)
  note t1 = heic_stream_leaves_room_for_tiff_header
         [of ?W "\<lparr>tiffOffset = 8, littleEndian = True\<rparr>" 0, THEN conjunct1, THEN mp, OF w]
  note t2 = heic_stream_leaves_room_for_tiff_header
         [of ?V "\<lparr>tiffOffset = 8, littleEndian = True\<rparr>" 0, THEN conjunct2, THEN mp,
          OF conjI [OF v(1) conjI [OF v(2) v(3)]]]
  show ?thesis
    using w v t1 [THEN conjunct1] t2 by (intro conjI)
qed

section \<open>Further properties of the code\<close>

text \<open>
  Within the argument limit \<open>readAsciiValue\<close> returns the bytes of the entry's range
  that lie inside the buffer, up to the first zero byte. A range that starts at or
  after the end of the buffer, or an empty range, gives the empty string. The
  conversion takes the empty reference as it takes \<open>N\<close> or \<open>E\<close>: the result is not
  negated.
\<close>

theorem readAsciiValue_within_limit:
  "(length (referenceBytes dv entry) \<le> m \<longrightarrow>
      readAsciiValue m dv entry
        = Inr (takeWhile (\<lambda>v. v \<noteq> 0) (bytesAt dv (dataOffset entry) (ecount entry))))
   \<and> (length dv \<le> dataOffset entry \<or> ecount entry = 0 \<longrightarrow> readAsciiValue m dv entry = Inr [])
   \<and> (3 \<le> length vs \<and> denominator (vs ! 0) \<noteq> 0 \<and> denominator (vs ! 1) \<noteq> 0
        \<and> denominator (vs ! 2) \<noteq> 0 \<and> numerator (vs ! 0) < 2 ^ 32
        \<and> numerator (vs ! 1) < 2 ^ 32 \<and> numerator (vs ! 2) < 2 ^ 32 \<longrightarrow>
      convertToDecimalDegrees vs [] =
        Finite (roundToDouble
            (roundToDouble
               (roundToDouble (real (numerator (vs ! 0)) / real (denominator (vs ! 0)))
                + roundToDouble
                    (roundToDouble (real (numerator (vs ! 1)) / real (denominator (vs ! 1)))
                     / 60))
             + roundToDouble
                 (roundToDouble (real (numerator (vs ! 2)) / real (denominator (vs ! 2)))
                  / 3600))))"
proof -
  have a: "readAsciiValue m dv entry
        = Inr (takeWhile (\<lambda>v. v \<noteq> 0) (bytesAt dv (dataOffset entry) (ecount entry)))"
    if "length (referenceBytes dv entry) \<le> m"
    using that by (simp add: readAsciiValue_eq referenceBytes_def)
  have b: "readAsciiValue m dv entry = Inr []"
    if "length dv \<le> dataOffset entry \<or> ecount entry = 0"
    using that by (auto simp: readAsciiValue_eq referenceBytes_def bytesAt_def)
  have c: "convertToDecimalDegrees vs [] =
        Finite (roundToDouble
            (roundToDouble
               (roundToDouble (real (numerator (vs ! 0)) / real (denominator (vs ! 0)))
                + roundToDouble
                    (roundToDouble (real (numerator (vs ! 1)) / real (denominator (vs ! 1)))
                     / 60))
             + roundToDouble
                 (roundToDouble (real (numerator (vs ! 2)) / real (denominator (vs ! 2)))
                  / 3600)))"
    if "3 \<le> length vs \<and> denominator (vs ! 0) \<noteq> 0 \<and> denominator (vs ! 1) \<noteq> 0
        \<and> denominator (vs ! 2) \<noteq> 0 \<and> numerator (vs ! 0) < 2 ^ 32
        \<and> numerator (vs ! 1) < 2 ^ 32 \<and> numerator (vs ! 2) < 2 ^ 32"
    using that convert_value [of vs "[]"] by (simp add: trim_empty str_S_def str_W_def)
  show ?thesis
    using a b c by blast
qed

theorem readAsciiValue_within_limit_witness:
  "readAsciiValue 65535 [0x00, 0x00, 0x00, 0x00, 0x00, 0x57]
      \<lparr>etype = 2, ecount = 2, dataOffset = 5, valueOrOffset = 5, valueSize = 2\<rparr> = Inr [0x57]
   \<and> length [0x00, 0x00, 0x00, 0x00, 0x00, 0x57 :: byte]
       \<le> dataOffset \<lparr>etype = 2, ecount = 2, dataOffset = 9, valueOrOffset = 9, valueSize = 2\<rparr>
   \<and> readAsciiValue 65535 [0x00, 0x00, 0x00, 0x00, 0x00, 0x57]
      \<lparr>etype = 2, ecount = 2, dataOffset = 9, valueOrOffset = 9, valueSize = 2\<rparr> = Inr []
   \<and> 3 \<le> length [\<lparr>numerator = 139, denominator = 1\<rparr>, \<lparr>numerator = 41, denominator = 1\<rparr>,
                \<lparr>numerator = 30, denominator = 1\<rparr>]
   \<and> convertToDecimalDegrees
        [\<lparr>numerator = 139, denominator = 1\<rparr>, \<lparr>numerator = 41, denominator = 1\<rparr>,
         \<lparr>numerator = 30, denominator = 1\<rparr>] []
       = Finite (2457481788854545 / 17592186044416)"
  using readAsciiValue_within_limit
          [of "[0x00, 0x00, 0x00, 0x00, 0x00, 0x57]"
              "\<lparr>etype = 2, ecount = 2, dataOffset = 5, valueOrOffset = 5, valueSize = 2\<rparr>"
              65535
              "[\<lparr>numerator = 139, denominator = 1\<rparr>, \<lparr>numerator = 41, denominator = 1\<rparr>,
                \<lparr>numerator = 30, denominator = 1\<rparr>]"]
        readAsciiValue_within_limit
          [of "[0x00, 0x00, 0x00, 0x00, 0x00, 0x57]"
              "\<lparr>etype = 2, ecount = 2, dataOffset = 9, valueOrOffset = 9, valueSize = 2\<rparr>"
              65535
              "[\<lparr>numerator = 139, denominator = 1\<rparr>, \<lparr>numerator = 41, denominator = 1\<rparr>,
                \<lparr>numerator = 30, denominator = 1\<rparr>]"]
  by (simp add: referenceBytes_def bytesAt_def rd_values)

text \<open>
  Every rational that \<open>readRationalValues\<close> returns is a pair of unsigned 32-bit
  integers with a denominator that is not zero.
\<close>

theorem readRationalValues_stored:
  assumes "readRationalValues dv entry le = Inr (Some rs)" and "k < length rs"
  shows "numerator (rs ! k) < 2 ^ 32 \<and> denominator (rs ! k) < 2 ^ 32 \<and> denominator (rs ! k) \<noteq> 0"
proof -
  have all: "\<forall>i < ecount entry. rationalReadable dv entry le i"
    and rs: "rs = map (rationalAt dv entry le) [0..<ecount entry]"
    using assms(1) by (auto simp: readRationalValues_eq split: if_splits)
  have k: "k < ecount entry" using assms(2) rs by simp
  then have v: "rs ! k = rationalAt dv entry le k" using rs by simp
  have "rationalReadable dv entry le k" using all k by blast
  then show ?thesis
    unfolding v by (simp add: rationalAt_def rationalReadable_def uint32At_bound)
qed

theorem readRationalValues_stored_witness:
  "readRationalValues (gpsSample 1)
      \<lparr>etype = 5, ecount = 3, dataOffset = 80, valueOrOffset = 80, valueSize = 24\<rparr> True
     = Inr (Some [\<lparr>numerator = 35, denominator = 1\<rparr>, \<lparr>numerator = 40, denominator = 1\<rparr>,
                  \<lparr>numerator = 45, denominator = 1\<rparr>])
   \<and> numerator ([\<lparr>numerator = 35, denominator = 1\<rparr>, \<lparr>numerator = 40, denominator = 1\<rparr>,
                  \<lparr>numerator = 45, denominator = 1\<rparr>] ! 2) < 2 ^ 32"
proof -
  have h: "readRationalValues (gpsSample 1)
      \<lparr>etype = 5, ecount = 3, dataOffset = 80, valueOrOffset = 80, valueSize = 24\<rparr> True
     = Inr (Some [\<lparr>numerator = 35, denominator = 1\<rparr>, \<lparr>numerator = 40, denominator = 1\<rparr>,
                  \<lparr>numerator = 45, denominator = 1\<rparr>])"
    by (simp add: gpsSample_def gps_eval reads)
  have l: "2 < length [\<lparr>numerator = 35, denominator = 1\<rparr>, \<lparr>numerator = 40, denominator = 1\<rparr>,
                  \<lparr>numerator = 45, denominator = 1\<rparr>]" by simp
  show ?thesis
    using h readRationalValues_stored [OF h l, THEN conjunct1] by (intro conjI)
qed

text \<open>
  The GPS decoder throws nothing but the \<open>RangeError\<close> of a reference too long for the
  call of \<open>String.fromCharCode\<close>: every read of \<open>parseGpsFromTiff\<close>, \<open>readIfdEntries\<close>,
  \<open>readAsciiValue\<close> and \<open>readRationalValues\<close> is guarded.
\<close>

theorem parseGpsFromTiff_throws_only_on_long_reference:
  assumes "parseGpsFromTiff m dv info = Inl e"
  shows "e = RangeError \<and> (\<exists>firstIfd gpsInfo gpsIfd.
      readIfdEntries dv (tiffOffset info + uint32At dv (tiffOffset info + 4) (littleEndian info))
        (littleEndian info) (tiffOffset info) = Inr firstIfd
      \<and> firstIfd 0x8825 = Some gpsInfo
      \<and> readIfdEntries dv (tiffOffset info + valueOrOffset gpsInfo)
          (littleEndian info) (tiffOffset info) = Inr gpsIfd
      \<and> referenceTooLong m dv gpsIfd)"
  using assms by (rule parseGpsFromTiff_failure)

theorem parseGpsFromTiff_throws_witness:
  "parseGpsFromTiff 65535 (longReferenceSample 1) \<lparr>tiffOffset = 0, littleEndian = True\<rparr>
     = Inl RangeError
   \<and> (\<exists>gpsIfd. referenceTooLong 65535 (longReferenceSample 1) gpsIfd)"
  using parseGpsFromTiff_throws_only_on_long_reference
          [OF longReferenceSample_range_error [of 1]]
        longReferenceSample_range_error [of 1]
  by blast

text \<open>
  So on a buffer that is not longer than the engine's argument limit the GPS decoder
  never throws.
\<close>

theorem parseGpsFromTiff_never_throws_on_short_buffer:
  assumes "length dv \<le> m"
  shows "parseGpsFromTiff m dv info \<noteq> Inl e"
  using parseGpsFromTiff_total [OF assms, of info] by auto

theorem parseGpsFromTiff_never_throws_witness:
  "length truncatedIfdSample \<le> 65535
   \<and> parseGpsFromTiff 65535 truncatedIfdSample \<lparr>tiffOffset = 0, littleEndian = True\<rparr>
       \<noteq> Inl RangeError"
proof -
  have h: "length truncatedIfdSample \<le> 65535" by (simp add: truncatedIfdSample_def)
  show ?thesis
    using h parseGpsFromTiff_never_throws_on_short_buffer [OF h] by simp
qed

text \<open>
  With a HEIC hint, on such a buffer, the extraction ends in the error of the HEIC
  route or returns (a coordinate or \<open>null\<close>); it never ends in a \<open>RangeError\<close>.
\<close>

theorem heic_route_never_throws_on_short_buffer:
  assumes "isHeicFileType (toLowerCase (ftype f)) (toLowerCase (fname f))"
    and "length (arrayBuffer f) \<le> m"
  shows "extractGpsFromFile m f = Inl NoLocationInHeic \<or> (\<exists>r. extractGpsFromFile m f = Inr r)"
proof -
  have "\<exists>i. locateExifSegmentInHeic (arrayBuffer f) = Inr i"
    by (cases "\<exists>p. heicAccepts (arrayBuffer f) p") (simp_all add: heic_result)
  then obtain i where i: "locateExifSegmentInHeic (arrayBuffer f) = Inr i" ..
  show ?thesis
  proof (cases i)
    case None
    then show ?thesis using assms(1) by (simp add: extractGpsFromFile_routes i)
  next
    case (Some info)
    then show ?thesis
      using assms(1) parseGpsFromTiff_total [OF assms(2), of info]
      by (simp add: extractGpsFromFile_routes i)
  qed
qed

theorem heic_route_witness:
  "isHeicFileType (toLowerCase str_image_heic) (toLowerCase [])
   \<and> length badByteOrderSample \<le> 65535
   \<and> (extractGpsFromFile 65535
         \<lparr>arrayBuffer = badByteOrderSample, ftype = str_image_heic, fname = []\<rparr>
         = Inl NoLocationInHeic
        \<or> (\<exists>r. extractGpsFromFile 65535
               \<lparr>arrayBuffer = badByteOrderSample, ftype = str_image_heic, fname = []\<rparr> = Inr r))"
proof -
  have h: "isHeicFileType (toLowerCase str_image_heic) (toLowerCase [])"
    by (simp add: hint_eval str_image_heic_def)
  have l: "length badByteOrderSample \<le> 65535" by (simp add: badByteOrderSample_def)
  show ?thesis
    using h l heic_route_never_throws_on_short_buffer
      [of "\<lparr>arrayBuffer = badByteOrderSample, ftype = str_image_heic, fname = []\<rparr>" 65535]
    by simp
qed

text \<open>
  A GPS directory with a reference too long for the call makes the decoder throw, and
  with it the extraction: the sample stream with the latitude reference of 70000 bytes,
  after the signature \<open>Exif\0\0\<close> in a file with the MIME type \<open>image/heic\<close>, ends in a
  \<open>RangeError\<close> when the limit is 65535 arguments.
\<close>

theorem gps_directory_long_reference_throws:
  assumes "tiffOffset info + 8 \<le> length dv"
    and "readIfdEntries dv (tiffOffset info + uint32At dv (tiffOffset info + 4) (littleEndian info))
           (littleEndian info) (tiffOffset info) = Inr firstIfd"
    and "firstIfd 0x8825 = Some gpsInfo"
    and "readIfdEntries dv (tiffOffset info + valueOrOffset gpsInfo)
           (littleEndian info) (tiffOffset info) = Inr gpsIfd"
    and "referenceTooLong m dv gpsIfd"
  shows "parseGpsFromTiff m dv info = Inl RangeError"
  using assms by (rule parseGpsFromTiff_long_reference)

theorem long_reference_extraction_range_error:
  "extractGpsFromFile 65535
     \<lparr>arrayBuffer = heicLongReferenceSample, ftype = str_image_heic, fname = []\<rparr>
   = Inl RangeError"
proof -
  let ?dv = "heicLongReferenceSample"
  let ?info = "\<lparr>tiffOffset = 6, littleEndian = True\<rparr>"
  let ?first = "[0x8825 \<mapsto> \<lparr>etype = 4, ecount = 1, dataOffset = 24, valueOrOffset = 26,
                   valueSize = 4\<rparr>] :: directory"
  let ?latRef = "\<lparr>etype = 2, ecount = 70000, dataOffset = 134, valueOrOffset = 128,
                   valueSize = 70000\<rparr>"
  let ?gps = "[1 \<mapsto> ?latRef,
            2 \<mapsto> \<lparr>etype = 5, ecount = 3, dataOffset = 86, valueOrOffset = 80, valueSize = 24\<rparr>,
            3 \<mapsto> \<lparr>etype = 2, ecount = 2, dataOffset = 66, valueOrOffset = 69, valueSize = 2\<rparr>,
            4 \<mapsto> \<lparr>etype = 5, ecount = 3, dataOffset = 110, valueOrOffset = 104, valueSize = 24\<rparr>]
            :: directory"
  have s: "locateExifSegmentInHeic ?dv = Inr (Some ?info)"
    by (simp add: heicLongReferenceSample_def longReferenceSample_def heic_scan_eval reads)
  have h1: "tiffOffset ?info + 8 \<le> length ?dv"
    by (simp add: heicLongReferenceSample_def longReferenceSample_def)
  have h2: "readIfdEntries ?dv
      (tiffOffset ?info + uint32At ?dv (tiffOffset ?info + 4) (littleEndian ?info))
      (littleEndian ?info) (tiffOffset ?info) = Inr ?first"
    by (simp add: heicLongReferenceSample_def longReferenceSample_def ifd_eval reads)
  have h3: "?first 0x8825 = Some \<lparr>etype = 4, ecount = 1, dataOffset = 24, valueOrOffset = 26,
                   valueSize = 4\<rparr>"
    by simp
  have h4: "readIfdEntries ?dv
      (tiffOffset ?info + valueOrOffset \<lparr>etype = 4, ecount = 1, dataOffset = 24,
         valueOrOffset = 26, valueSize = 4\<rparr>)
      (littleEndian ?info) (tiffOffset ?info) = Inr ?gps"
    by (simp add: heicLongReferenceSample_def longReferenceSample_def ifd_eval reads)
  have "referenceBytes ?dv ?latRef = replicate 70000 0x4E"
    by (simp add: referenceBytes_def bytesAt_def heicLongReferenceSample_def
          longReferenceSample_def)
  then have h5: "referenceTooLong 65535 ?dv ?gps"
    by (simp add: referenceTooLong_def)
  have p: "parseGpsFromTiff 65535 ?dv ?info = Inl RangeError"
    using h1 h2 h3 h4 h5 by (rule gps_directory_long_reference_throws)
  have t: "isHeicFileType (toLowerCase str_image_heic) (toLowerCase [])"
    by (simp add: hint_eval str_image_heic_def)
  show ?thesis
    by (simp add: extractGpsFromFile_routes t s p)
qed

text \<open>
  The stride of the JPEG walk: after a segment that is neither the start of scan nor an
  APP1 segment of length at least 8 that passes the signature test, the next marker is
  inspected at the offset of the marker plus \<open>4 + L\<close>, where \<open>L\<close> is the segment's
  length field.
\<close>

theorem jpeg_walk_stride:
  assumes "walkInspects dv offset" and "offset + 4 < length dv"
    and "uint8At dv offset = 0xff" and "uint8At dv (offset + 1) \<noteq> 0xda"
    and "uint8At dv (offset + 1) \<noteq> 0xe1 \<or> uint16At dv (offset + 2) False < 8
       \<or> andThen (getAscii dv (offset + 4) 4) (exifHeaderTest dv (offset + 4)) = Inr False"
  shows "walkInspects dv (offset + 4 + uint16At dv (offset + 2) False)
       \<and> locateExifSegment dv
           = locateExifSegment_loop dv (offset + 4 + uint16At dv (offset + 2) False)"
proof -
  have c: "\<not> (uint8At dv (offset + 1) = 0xe1 \<and> 8 \<le> uint16At dv (offset + 2) False)
       \<or> andThen (getAscii dv (offset + 4) 4) (exifHeaderTest dv (offset + 4)) = Inr False"
    using assms(5) by auto
  have e: "offset + 2 + 2 + uint16At dv (offset + 2) False
      = offset + 4 + uint16At dv (offset + 2) False" by arith
  have "walkInspects dv (offset + 2 + 2 + uint16At dv (offset + 2) False)"
    using assms(1,2,3,4) c by (rule walkInspects.advance)
  then have w: "walkInspects dv (offset + 4 + uint16At dv (offset + 2) False)"
    by (simp only: e)
  then show ?thesis using walk_reaches by blast
qed

theorem jpeg_walk_stride_witness:
  "walkInspects badByteOrderSample 2 \<and> 2 + 4 < length badByteOrderSample
   \<and> uint8At badByteOrderSample 2 = 0xff \<and> uint8At badByteOrderSample (2 + 1) = 0xe0
   \<and> uint16At badByteOrderSample (2 + 2) False = 2
   \<and> walkInspects badByteOrderSample (2 + 4 + uint16At badByteOrderSample (2 + 2) False)"
proof -
  have h: "2 + 4 < length badByteOrderSample" "uint8At badByteOrderSample 2 = 0xff"
    "uint8At badByteOrderSample (2 + 1) \<noteq> 0xda"
    "uint8At badByteOrderSample (2 + 1) \<noteq> 0xe1 \<or> uint16At badByteOrderSample (2 + 2) False < 8
       \<or> andThen (getAscii badByteOrderSample (2 + 4) 4) (exifHeaderTest badByteOrderSample (2 + 4))
           = Inr False"
    by (simp_all add: badByteOrderSample_def uint8At_def uint16At_def)
  have v: "uint8At badByteOrderSample (2 + 1) = 0xe0"
    "uint16At badByteOrderSample (2 + 2) False = 2"
    by (simp_all add: badByteOrderSample_def uint8At_def uint16At_def)
  note t = jpeg_walk_stride [OF walkInspects.start h, THEN conjunct1]
  show ?thesis
    using t h(1,2) v walkInspects.start [of badByteOrderSample] by (intro conjI)
qed

end
